theory Spec2Isabelle
  imports Main "HOL-Library.AList"
begin

section \<open>Data model of the Cloud Sync plugin (src/main.ts)\<close>

text \<open>
  Paths and file contents are strings. Local modification times are JavaScript numbers
  (epoch milliseconds), modelled as \<open>int\<close>. A remote \<open>modifiedTime\<close> is an ISO string
  in the source and is only ever used through \<open>Date.parse\<close>; it is modelled by its parsed
  value, so \<open>remoteMtime = None\<close> stands for an absent (falsy) string. The time strings
  Drive returns always parse, so \<open>NaN\<close> has no counterpart here.
\<close>

type_synonym path = string
type_synonym bytes = string
type_synonym epoch = int

record FileSyncState =
  remoteId :: string
  remoteMtime :: "epoch option"
  remoteMd5 :: "string option"
  localMtimeEpoch :: "epoch option"

text \<open>An object of the Drive app folder; a listing returns these entries (the code
  reads id, name, mimeType, modifiedTime and md5Checksum of a listed entry).\<close>

record DriveFile =
  fid :: string
  name :: string
  mimeType :: string
  modifiedTime :: epoch
  md5Checksum :: "string option"
  body :: bytes

record LocalFile =
  mtime :: epoch
  data :: bytes

text \<open>
  Everything the run cannot decide by itself: which calls to the vault and to Drive fail,
  and the clocks and identifiers the outside world hands out. A failed listing is keyed by
  the call: \<open>None\<close> is the listing of the snapshot, \<open>Some p\<close> the listing made after
  uploading \<open>p\<close>.
\<close>

record env =
  token_ok :: bool
  folder_lookup :: "string option"
  stat_throws :: "path \<Rightarrow> bool"
  read_throws :: "path \<Rightarrow> bool"
  write_throws :: "path \<Rightarrow> bool"
  delete_throws :: "path \<Rightarrow> bool"
  list_fails :: "path option \<Rightarrow> bool"
  upload_fails :: "path \<Rightarrow> bool"
  download_fails :: "string \<Rightarrow> bool"
  remote_delete_fails :: "string \<Rightarrow> bool"
  fresh_id :: "path \<Rightarrow> string"
  server_clock :: "path \<Rightarrow> epoch"
  fs_clock :: "path \<Rightarrow> epoch"
  date_now :: "path \<Rightarrow> epoch"
  iso_now :: "path \<Rightarrow> string"
  md5 :: "bytes \<Rightarrow> string"

text \<open>
  The plugin's settings (\<open>cloudProvider\<close>, \<open>googleDriveAppFolderId\<close>, \<open>fileMap\<close>), what
  \<open>saveData\<close> has persisted of the file map (newest first), the two stores, and the two
  local variables of \<open>syncNow\<close>: \<open>localFiles\<close> and \<open>remoteFilesMap\<close> (JavaScript Maps:
  insertion ordered, one entry per key).
\<close>

record state =
  cloudProvider :: string
  googleDriveAppFolderId :: "string option"
  fileMap :: "(path \<times> FileSyncState) list"
  saved :: "(path \<times> FileSyncState) list list"
  vault :: "(path \<times> LocalFile) list"
  drive :: "DriveFile list"
  localFiles :: "(path \<times> epoch) list"
  remoteFilesMap :: "(path \<times> DriveFile) list"

datatype 'a outcome = Threw | Returned 'a

datatype operation = upload_new | upload_update | download_new | download_update | skip

text \<open>The branch of the upload-direction comparison, one per \<open>reason\<close> of the source.\<close>

datatype upload_case =
  NewLocalFile | Conflict | LocalNewer | RemoteSameOrNewer | LocalUnchanged

datatype download_case =
  NewRemoteFile | RemoteNewer | LocalNewerThanRemote | TimesMatch | RemoteUnchanged

section \<open>Strings\<close>

definition startsWith :: "string \<Rightarrow> string \<Rightarrow> bool" where
  "startsWith s t = (take (length t) s = t)"

definition endsWith :: "string \<Rightarrow> string \<Rightarrow> bool" where
  "endsWith s t = (length t \<le> length s \<and> drop (length s - length t) s = t)"

text \<open>\<open>s.lastIndexOf(c)\<close>: \<open>None\<close> is the result -1.\<close>

definition lastIndexOf :: "string \<Rightarrow> char \<Rightarrow> nat option" where
  "lastIndexOf s c =
     (if c \<in> set s then Some (length s - Suc (length (takeWhile (\<lambda>x. x \<noteq> c) (rev s))))
      else None)"

text \<open>\<open>toISOString().replace(/[:.]/g, '-')\<close>\<close>

definition sanitize :: "string \<Rightarrow> string" where
  "sanitize s = map (\<lambda>c. if c = CHR '':'' then CHR ''-'' else if c = CHR ''.'' then CHR ''-'' else c) s"

text \<open>
  \<open>path.substring(0, i) + "_local_conflict_" + timestamp + path.substring(i)\<close> with
  \<open>i = path.lastIndexOf('.')\<close>; for \<open>i = -1\<close>, \<open>substring(0, -1)\<close> is empty and
  \<open>substring(-1)\<close> is the whole path.
\<close>

definition conflictPath :: "env \<Rightarrow> path \<Rightarrow> path" where
  "conflictPath e p =
     (case lastIndexOf p (CHR ''.'') of
        None \<Rightarrow> ''_local_conflict_'' @ sanitize (iso_now e p) @ p
      | Some i \<Rightarrow> take i p @ ''_local_conflict_'' @ sanitize (iso_now e p) @ drop i p)"

section \<open>The vault (Obsidian API) and the Drive folder (HTTP wrappers)\<close>

text \<open>
  The Obsidian vault calls are not part of the repository; they are modelled as the
  plugin uses them: \<open>stat\<close> returns null for a missing file, \<open>createBinary\<close> throws when
  the file exists, \<open>modifyBinary\<close> overwrites, and each call throws when the environment
  says so. A written file gets the file system's clock as its mtime.
\<close>

definition getMarkdownFiles :: "state \<Rightarrow> path list" where
  "getMarkdownFiles st = filter (\<lambda>p. endsWith p ''.md'') (map fst (vault st))"

definition stat :: "env \<Rightarrow> state \<Rightarrow> path \<Rightarrow> epoch option outcome" where
  "stat e st p =
     (if stat_throws e p then Threw else Returned (map_option mtime (map_of (vault st) p)))"

definition readBinary :: "env \<Rightarrow> state \<Rightarrow> path \<Rightarrow> bytes outcome" where
  "readBinary e st p =
     (if read_throws e p then Threw
      else case map_of (vault st) p of None \<Rightarrow> Threw | Some f \<Rightarrow> Returned (data f))"

definition createBinary :: "env \<Rightarrow> path \<Rightarrow> bytes \<Rightarrow> state \<Rightarrow> state outcome" where
  "createBinary e p c st =
     (if write_throws e p then Threw
      else case map_of (vault st) p of
        Some f \<Rightarrow> Threw
      | None \<Rightarrow> Returned (st\<lparr>vault := vault st @ [(p, \<lparr>mtime = fs_clock e p, data = c\<rparr>)]\<rparr>))"

definition modifyBinary :: "env \<Rightarrow> path \<Rightarrow> bytes \<Rightarrow> state \<Rightarrow> state outcome" where
  "modifyBinary e p c st =
     (if write_throws e p then Threw
      else Returned (st\<lparr>vault := AList.update p \<lparr>mtime = fs_clock e p, data = c\<rparr> (vault st)\<rparr>))"

definition vault_delete :: "env \<Rightarrow> path \<Rightarrow> state \<Rightarrow> state outcome" where
  "vault_delete e p st =
     (if delete_throws e p then Threw
      else Returned (st\<lparr>vault := AList.delete p (vault st)\<rparr>))"

text \<open>\<open>listGoogleDriveFiles\<close> (lines 752-801): every entry of the folder, or \<open>[]\<close> when
  the token or the request fails.\<close>

definition listGoogleDriveFiles :: "env \<Rightarrow> path option \<Rightarrow> state \<Rightarrow> DriveFile list" where
  "listGoogleDriveFiles e call st = (if list_fails e call then [] else drive st)"

text \<open>
  \<open>uploadGoogleDriveFile\<close> (lines 829-908): POST creates an object with a new id, PATCH
  replaces the object \<open>existingFileId\<close>; the result is the id, or null on any failure
  (a PATCH of an id Drive does not hold is a failed request). Drive stamps the object
  with the server's clock.
\<close>

definition uploadGoogleDriveFile ::
  "env \<Rightarrow> path \<Rightarrow> bytes \<Rightarrow> string \<Rightarrow> string option \<Rightarrow> state \<Rightarrow> string option \<times> state" where
  "uploadGoogleDriveFile e fileName fileContent mime existingFileId st =
     (if upload_fails e fileName then (None, st)
      else case existingFileId of
        None \<Rightarrow>
          (Some (fresh_id e fileName),
           st\<lparr>drive := drive st @
             [\<lparr>fid = fresh_id e fileName, name = fileName, mimeType = mime,
               modifiedTime = server_clock e fileName,
               md5Checksum = Some (md5 e fileContent), body = fileContent\<rparr>]\<rparr>)
      | Some i \<Rightarrow>
          (if i \<in> fid ` set (drive st) then
             (Some i,
              st\<lparr>drive := map (\<lambda>f. if fid f = i
                 then f\<lparr>name := fileName, mimeType := mime,
                        modifiedTime := server_clock e fileName,
                        md5Checksum := Some (md5 e fileContent), body := fileContent\<rparr>
                 else f) (drive st)\<rparr>)
           else (None, st)))"

text \<open>\<open>downloadGoogleDriveFile\<close> (lines 803-827): the content, or null.\<close>

definition downloadGoogleDriveFile :: "env \<Rightarrow> string \<Rightarrow> state \<Rightarrow> bytes option" where
  "downloadGoogleDriveFile e i st =
     (if download_fails e i then None
      else map_option body (find (\<lambda>f. fid f = i) (drive st)))"

text \<open>\<open>deleteGoogleDriveFile\<close> (lines 912-942): true exactly when the DELETE request
  succeeded.\<close>

definition deleteGoogleDriveFile :: "env \<Rightarrow> string \<Rightarrow> state \<Rightarrow> bool \<times> state" where
  "deleteGoogleDriveFile e i st =
     (if remote_delete_fails e i then (False, st)
      else if i \<in> fid ` set (drive st)
        then (True, st\<lparr>drive := filter (\<lambda>f. fid f \<noteq> i) (drive st)\<rparr>)
        else (False, st))"

definition saveSettings :: "state \<Rightarrow> state" where
  "saveSettings st = st\<lparr>saved := fileMap st # saved st\<rparr>"

text \<open>\<open>findOrCreateAppFolder\<close> (lines 693-750): the stored id when there is one, else
  the id found or created, which is stored and saved.\<close>

definition findOrCreateAppFolder :: "env \<Rightarrow> state \<Rightarrow> string option \<times> state" where
  "findOrCreateAppFolder e st =
     (if token_ok e then
        (case googleDriveAppFolderId st of
           Some i \<Rightarrow> (Some i, st)
         | None \<Rightarrow>
            (case folder_lookup e of
               None \<Rightarrow> (None, st)
             | Some i \<Rightarrow> (Some i, saveSettings (st\<lparr>googleDriveAppFolderId := Some i\<rparr>))))
      else (None, st))"

section \<open>Snapshots (lines 216-256)\<close>

fun local_scan :: "env \<Rightarrow> state \<Rightarrow> path list \<Rightarrow> (path \<times> epoch) list \<Rightarrow> (path \<times> epoch) list" where
  "local_scan e st [] acc = acc"
| "local_scan e st (p # ps) acc =
     (if startsWith p ''.obsidian/'' then local_scan e st ps acc
      else case stat e st p of
        Threw \<Rightarrow> local_scan e st ps acc
      | Returned None \<Rightarrow> local_scan e st ps acc
      | Returned (Some m) \<Rightarrow> local_scan e st ps (AList.update p m acc))"

fun remote_scan :: "DriveFile list \<Rightarrow> (path \<times> DriveFile) list \<Rightarrow> (path \<times> DriveFile) list" where
  "remote_scan [] acc = acc"
| "remote_scan (f # fs) acc =
     (if mimeType f = ''application/vnd.google-apps.folder'' then remote_scan fs acc
      else remote_scan fs (AList.update (name f) f acc))"

section \<open>Upload direction (lines 269-362)\<close>

definition lastKnownRemoteMtimeEpoch :: "FileSyncState \<Rightarrow> epoch" where
  "lastKnownRemoteMtimeEpoch m = (case remoteMtime m of None \<Rightarrow> 0 | Some t \<Rightarrow> t)"

definition currentRemoteMtimeEpoch :: "DriveFile option \<Rightarrow> epoch" where
  "currentRemoteMtimeEpoch cur = (case cur of None \<Rightarrow> 0 | Some f \<Rightarrow> modifiedTime f)"

text \<open>\<open>!existingMapping.localMtimeEpoch || localFileStat.mtime > existingMapping.localMtimeEpoch\<close>\<close>

definition local_changed :: "FileSyncState \<Rightarrow> epoch \<Rightarrow> bool" where
  "local_changed m t =
     (case localMtimeEpoch m of None \<Rightarrow> True | Some l \<Rightarrow> (if l = 0 then True else t > l))"

definition upload_case_of ::
  "FileSyncState option \<Rightarrow> epoch \<Rightarrow> DriveFile option \<Rightarrow> upload_case" where
  "upload_case_of existingMapping t cur =
     (case existingMapping of
        None \<Rightarrow> NewLocalFile
      | Some m \<Rightarrow>
         (if local_changed m t then
            (if cur \<noteq> None \<and> currentRemoteMtimeEpoch cur > lastKnownRemoteMtimeEpoch m
               then Conflict
             else if t > currentRemoteMtimeEpoch cur then LocalNewer
             else RemoteSameOrNewer)
          else LocalUnchanged))"

fun upload_operation :: "upload_case \<Rightarrow> operation" where
  "upload_operation NewLocalFile = upload_new"
| "upload_operation LocalNewer = upload_update"
| "upload_operation Conflict = skip"
| "upload_operation RemoteSameOrNewer = skip"
| "upload_operation LocalUnchanged = skip"

text \<open>The conflict branch (lines 290-309): copy the local content to the conflict path
  and add that path to \<open>localFiles\<close>; any throw leaves the rest of the block undone.\<close>

definition backup_local :: "env \<Rightarrow> path \<Rightarrow> state \<Rightarrow> state" where
  "backup_local e p st =
     (case readBinary e st p of
        Threw \<Rightarrow> st
      | Returned c \<Rightarrow>
         (case createBinary e (conflictPath e p) c st of
            Threw \<Rightarrow> st
          | Returned st1 \<Rightarrow>
             (case stat e st1 (conflictPath e p) of
                Threw \<Rightarrow> st1
              | Returned None \<Rightarrow> st1
              | Returned (Some m) \<Rightarrow>
                  st1\<lparr>localFiles := AList.update (conflictPath e p) m (localFiles st1)\<rparr>)))"

text \<open>\<open>remoteFilesMap.get(path) || (await this.listGoogleDriveFiles(appFolderId)).find(f => f.id === remoteId)\<close>\<close>

definition updatedRemoteFile :: "env \<Rightarrow> path \<Rightarrow> string \<Rightarrow> state \<Rightarrow> DriveFile option" where
  "updatedRemoteFile e p r st =
     (case map_of (remoteFilesMap st) p of
        Some f \<Rightarrow> Some f
      | None \<Rightarrow> find (\<lambda>f. fid f = r) (listGoogleDriveFiles e (Some p) st))"

definition record_upload :: "env \<Rightarrow> path \<Rightarrow> epoch \<Rightarrow> string \<Rightarrow> state \<Rightarrow> state" where
  "record_upload e p t r st =
     (case updatedRemoteFile e p r st of
        None \<Rightarrow>
          st\<lparr>fileMap := AList.update p
               \<lparr>remoteId = r, remoteMtime = None, remoteMd5 = None, localMtimeEpoch = Some t\<rparr>
               (fileMap st)\<rparr>
      | Some f \<Rightarrow>
          st\<lparr>fileMap := AList.update p
               \<lparr>remoteId = r, remoteMtime = Some (modifiedTime f), remoteMd5 = md5Checksum f,
                localMtimeEpoch = Some t\<rparr>
               (fileMap st),
             remoteFilesMap := AList.update p f (remoteFilesMap st)\<rparr>)"

text \<open>\<open>operation === 'upload_update' ? existingMapping.remoteId : undefined\<close>; an empty
  id is falsy and makes the upload a create.\<close>

definition existingRemoteFileId :: "operation \<Rightarrow> FileSyncState option \<Rightarrow> string option" where
  "existingRemoteFileId opn existingMapping =
     (if opn = upload_update then
        (case existingMapping of
           None \<Rightarrow> None
         | Some m \<Rightarrow> (if remoteId m = [] then None else Some (remoteId m)))
      else None)"

definition do_upload ::
  "env \<Rightarrow> path \<Rightarrow> epoch \<Rightarrow> operation \<Rightarrow> FileSyncState option \<Rightarrow> state \<Rightarrow> state" where
  "do_upload e p t opn existingMapping st =
     (case readBinary e st p of
        Threw \<Rightarrow> st
      | Returned c \<Rightarrow>
         (case uploadGoogleDriveFile e p c
                 (if endsWith p ''.md'' then ''text/markdown'' else ''application/octet-stream'')
                 (existingRemoteFileId opn existingMapping) st of
            (None, st1) \<Rightarrow> st1
          | (Some r, st1) \<Rightarrow> (if r = [] then st1 else record_upload e p t r st1)))"

definition upload_iter :: "env \<Rightarrow> path \<times> epoch \<Rightarrow> state \<Rightarrow> state" where
  "upload_iter e kv st =
     (let existingMapping = map_of (fileMap st) (fst kv);
          c = upload_case_of existingMapping (snd kv) (map_of (remoteFilesMap st) (fst kv));
          st1 = (if c = Conflict then backup_local e (fst kv) st else st)
      in if upload_operation c = skip then st1
         else do_upload e (fst kv) (snd kv) (upload_operation c) existingMapping st1)"

text \<open>The paths that can still take the conflict branch: those with an entry in the
  file map and in the remote snapshot.\<close>

definition conflict_candidates :: "state \<Rightarrow> path set" where
  "conflict_candidates st = fst ` set (fileMap st) \<inter> fst ` set (remoteFilesMap st)"

definition pending :: "path list \<Rightarrow> state \<Rightarrow> (path \<times> epoch) list" where
  "pending visited st = filter (\<lambda>kv. fst kv \<notin> set visited) (localFiles st)"

text \<open>
  \<open>for (const [path, localFileStat] of localFiles.entries())\<close>: a Map iterator visits
  every key once, in insertion order, including the keys that \<open>localFiles.set\<close> adds
  while the loop runs (the conflict paths). The loop below takes the first entry whose key
  has not been visited. It ends because only the conflict branch adds a key, and each path
  with an entry in the file map and the remote snapshot is visited once.
\<close>

function upload_loop :: "env \<Rightarrow> path list \<Rightarrow> state \<Rightarrow> state" where
  "upload_loop e visited st =
     (case pending visited st of
        [] \<Rightarrow> st
      | kv # rest \<Rightarrow> upload_loop e (fst kv # visited) (upload_iter e kv st))"
  by pat_completeness auto
termination
proof (relation "measure (\<lambda>(e, visited, st).
     2 * card (conflict_candidates st - set visited) + card (fst ` set (localFiles st) - set visited))")
  show "wf (measure (\<lambda>(e, visited, st).
     2 * card (conflict_candidates st - set visited) + card (fst ` set (localFiles st) - set visited)))"
    by simp
next
  fix e visited st kv rest
  assume p: "pending visited st = kv # rest"
  let ?st' = "upload_iter e kv st"
  let ?V = "set visited" and ?k = "fst kv"
  let ?m = "map_of (fileMap st) ?k" and ?cur = "map_of (remoteFilesMap st) ?k"
  have backup: "fileMap (backup_local e ?k st) = fileMap st
      \<and> remoteFilesMap (backup_local e ?k st) = remoteFilesMap st
      \<and> (localFiles (backup_local e ?k st) = localFiles st
         \<or> (\<exists>m. localFiles (backup_local e ?k st)
                  = AList.update (conflictPath e ?k) m (localFiles st)))"
    by (auto simp: backup_local_def createBinary_def split: outcome.splits option.splits)
  have upload: "localFiles (do_upload e ?k (snd kv) opn ?m st) = localFiles st
      \<and> fst ` set (fileMap (do_upload e ?k (snd kv) opn ?m st)) \<subseteq> insert ?k (fst ` set (fileMap st))
      \<and> fst ` set (remoteFilesMap (do_upload e ?k (snd kv) opn ?m st))
          \<subseteq> insert ?k (fst ` set (remoteFilesMap st))" for opn
    by (auto simp: do_upload_def uploadGoogleDriveFile_def record_upload_def dom_update
          split: outcome.splits option.splits if_splits)
  have cases: "(localFiles ?st' = localFiles st
        \<and> conflict_candidates ?st' \<subseteq> insert ?k (conflict_candidates st))
     \<or> (conflict_candidates ?st' = conflict_candidates st \<and> ?k \<in> conflict_candidates st
        \<and> (\<exists>cp m. localFiles ?st' = AList.update cp m (localFiles st)))"
  proof (cases "upload_case_of ?m (snd kv) ?cur = Conflict")
    case True
    then have it: "?st' = backup_local e ?k st"
      by (simp add: upload_iter_def)
    from True have "?m \<noteq> None \<and> ?cur \<noteq> None"
      by (auto simp: upload_case_of_def split: option.splits if_splits)
    then have "?k \<in> conflict_candidates st"
      by (simp add: conflict_candidates_def map_of_eq_None_iff)
    with backup it show ?thesis by (auto simp: conflict_candidates_def)
  next
    case False
    then have "?st' = st \<or> (\<exists>opn. ?st' = do_upload e ?k (snd kv) opn ?m st)"
      by (auto simp: upload_iter_def Let_def)
    then show ?thesis
    proof
      assume "?st' = st"
      then show ?thesis by auto
    next
      assume "\<exists>opn. ?st' = do_upload e ?k (snd kv) opn ?m st"
      then obtain opn where eq: "?st' = do_upload e ?k (snd kv) opn ?m st"
        by blast
      from upload[of opn] show ?thesis unfolding eq conflict_candidates_def by blast
    qed
  qed
  from p have k: "?k \<in> fst ` set (localFiles st)" "?k \<notin> set visited"
    by (metis (mono_tags, lifting) filter_eq_ConsD pending_def image_eqI in_set_conv_decomp,
        metis (mono_tags, lifting) Cons_eq_filterD pending_def)
  have fin: "finite (conflict_candidates st)" "finite (fst ` set (localFiles st))"
    by (simp_all add: conflict_candidates_def)
  from cases
  have "2 * card (conflict_candidates ?st' - insert ?k ?V) + card (fst ` set (localFiles ?st') - insert ?k ?V)
      < 2 * card (conflict_candidates st - ?V) + card (fst ` set (localFiles st) - ?V)"
  proof
    assume a: "localFiles ?st' = localFiles st \<and> conflict_candidates ?st' \<subseteq> insert ?k (conflict_candidates st)"
    then have "conflict_candidates ?st' - insert ?k ?V \<subseteq> conflict_candidates st - ?V" by auto
    then have c1: "card (conflict_candidates ?st' - insert ?k ?V) \<le> card (conflict_candidates st - ?V)"
      using fin by (simp add: card_mono)
    have "fst ` set (localFiles st) - insert ?k ?V \<subset> fst ` set (localFiles st) - ?V"
      using k by auto
    then have "card (fst ` set (localFiles st) - insert ?k ?V) < card (fst ` set (localFiles st) - ?V)"
      using fin by (simp add: psubset_card_mono)
    with c1 a show ?thesis by simp
  next
    assume b: "conflict_candidates ?st' = conflict_candidates st \<and> ?k \<in> conflict_candidates st
      \<and> (\<exists>cp m. localFiles ?st' = AList.update cp m (localFiles st))"
    then obtain cp m where lf: "localFiles ?st' = AList.update cp m (localFiles st)" by blast
    have "conflict_candidates st - insert ?k ?V \<subset> conflict_candidates st - ?V"
      using b k by auto
    then have c1: "card (conflict_candidates st - insert ?k ?V) < card (conflict_candidates st - ?V)"
      using fin by (simp add: psubset_card_mono)
    have "fst ` set (localFiles ?st') - insert ?k ?V \<subseteq> insert cp (fst ` set (localFiles st) - insert ?k ?V)"
      by (auto simp: lf dom_update)
    then have "card (fst ` set (localFiles ?st') - insert ?k ?V) \<le> card (insert cp (fst ` set (localFiles st) - insert ?k ?V))"
      using fin by (simp add: card_mono)
    also have "\<dots> \<le> Suc (card (fst ` set (localFiles st) - insert ?k ?V))"
      by (simp add: card_insert_le_m1 card_insert_if)
    also have "card (fst ` set (localFiles st) - insert ?k ?V) < card (fst ` set (localFiles st) - ?V)"
      using fin k by (intro psubset_card_mono) auto
    finally have "card (fst ` set (localFiles ?st') - insert ?k ?V) \<le> card (fst ` set (localFiles st) - ?V)"
      by simp
    with c1 b show ?thesis by simp
  qed
  then show "((e, fst kv # visited, upload_iter e kv st), (e, visited, st)) \<in> measure (\<lambda>(e, visited, st).
     2 * card (conflict_candidates st - set visited) + card (fst ` set (localFiles st) - set visited))"
    by simp
qed

declare upload_loop.simps [simp del]

definition upload_pass :: "env \<Rightarrow> state \<Rightarrow> state" where
  "upload_pass e st = saveSettings (upload_loop e [] st)"

section \<open>Download direction (lines 365-449)\<close>

definition download_case_of ::
  "epoch option \<Rightarrow> FileSyncState option \<Rightarrow> DriveFile \<Rightarrow> download_case" where
  "download_case_of localFileStat existingMapping f =
     (case localFileStat of
        None \<Rightarrow> NewRemoteFile
      | Some t \<Rightarrow>
         (if modifiedTime f >
               (case existingMapping of None \<Rightarrow> 0 | Some m \<Rightarrow> lastKnownRemoteMtimeEpoch m)
          then (if modifiedTime f > t then RemoteNewer
                else if modifiedTime f < t then LocalNewerThanRemote
                else TimesMatch)
          else RemoteUnchanged))"

fun download_operation :: "download_case \<Rightarrow> operation" where
  "download_operation NewRemoteFile = download_new"
| "download_operation RemoteNewer = download_update"
| "download_operation LocalNewerThanRemote = skip"
| "download_operation TimesMatch = skip"
| "download_operation RemoteUnchanged = skip"

text \<open>Lines 415-429: create for a new file; for an update, overwrite the file the vault
  has at the path, or create it when there is none.\<close>

definition write_download :: "env \<Rightarrow> path \<Rightarrow> bytes \<Rightarrow> operation \<Rightarrow> state \<Rightarrow> state outcome" where
  "write_download e p c opn st =
     (if opn = download_new then createBinary e p c st
      else case map_of (vault st) p of
        Some f \<Rightarrow> modifyBinary e p c st
      | None \<Rightarrow> createBinary e p c st)"

definition do_download :: "env \<Rightarrow> path \<Rightarrow> DriveFile \<Rightarrow> operation \<Rightarrow> state \<Rightarrow> state" where
  "do_download e p f opn st =
     (case downloadGoogleDriveFile e (fid f) st of
        None \<Rightarrow> st
      | Some c \<Rightarrow>
         (case write_download e p c opn st of
            Threw \<Rightarrow> st
          | Returned st1 \<Rightarrow>
             (case stat e st1 p of
                Threw \<Rightarrow> st1
              | Returned s \<Rightarrow>
                 st1\<lparr>fileMap := AList.update p
                    \<lparr>remoteId = fid f, remoteMtime = Some (modifiedTime f),
                     remoteMd5 = md5Checksum f,
                     localMtimeEpoch = Some (case s of Some t \<Rightarrow> t | None \<Rightarrow> date_now e p)\<rparr>
                    (fileMap st1)\<rparr>)))"

definition download_iter :: "env \<Rightarrow> path \<times> DriveFile \<Rightarrow> state \<Rightarrow> state" where
  "download_iter e kv st =
     (let c = download_case_of (map_of (localFiles st) (fst kv)) (map_of (fileMap st) (fst kv)) (snd kv)
      in if download_operation c = skip then st
         else do_download e (fst kv) (snd kv) (download_operation c) st)"

text \<open>The loop does not change \<open>remoteFilesMap\<close>, so it runs over the entries the map
  has when the loop starts.\<close>

definition download_loop :: "env \<Rightarrow> state \<Rightarrow> state" where
  "download_loop e st = foldl (\<lambda>s kv. download_iter e kv s) st (remoteFilesMap st)"

definition download_pass :: "env \<Rightarrow> state \<Rightarrow> state" where
  "download_pass e st = saveSettings (download_loop e st)"

section \<open>Deletions (lines 453-502)\<close>

text \<open>
  \<open>for (const pathInMap in this.settings.fileMap)\<close>: the keys the object has when the
  loop starts, a key deleted before its turn being skipped. Each turn deletes at most its
  own key. The keys are taken in insertion order (JavaScript puts keys that are array
  indices first; a vault path with an extension is none).
\<close>

definition local_deletion_step :: "env \<Rightarrow> path \<Rightarrow> state \<Rightarrow> state" where
  "local_deletion_step e p st =
     (case map_of (fileMap st) p of
        None \<Rightarrow> st
      | Some m \<Rightarrow>
         (case map_of (localFiles st) p of
            Some t \<Rightarrow> st
          | None \<Rightarrow>
             (case deleteGoogleDriveFile e (remoteId m) st of
                (True, st1) \<Rightarrow> st1\<lparr>fileMap := AList.delete p (fileMap st1)\<rparr>
              | (False, st1) \<Rightarrow> st1)))"

definition local_deletions :: "env \<Rightarrow> state \<Rightarrow> state" where
  "local_deletions e st = foldl (\<lambda>s p. local_deletion_step e p s) st (map fst (fileMap st))"

definition remote_deletion_step :: "env \<Rightarrow> path \<Rightarrow> state \<Rightarrow> state" where
  "remote_deletion_step e p st =
     (case map_of (fileMap st) p of
        None \<Rightarrow> st
      | Some m \<Rightarrow>
         (case map_of (remoteFilesMap st) p of
            Some f \<Rightarrow> st
          | None \<Rightarrow>
             (case map_of (vault st) p of
                None \<Rightarrow> st\<lparr>fileMap := AList.delete p (fileMap st)\<rparr>
              | Some l \<Rightarrow>
                 (case vault_delete e p st of
                    Threw \<Rightarrow> st
                  | Returned st1 \<Rightarrow> st1\<lparr>fileMap := AList.delete p (fileMap st1)\<rparr>))))"

definition remote_deletions :: "env \<Rightarrow> state \<Rightarrow> state" where
  "remote_deletions e st = foldl (\<lambda>s p. remote_deletion_step e p s) st (map fst (fileMap st))"

section \<open>The run (lines 183-508)\<close>

definition snapshot :: "env \<Rightarrow> state \<Rightarrow> state" where
  "snapshot e st =
     st\<lparr>localFiles := local_scan e st (getMarkdownFiles st) [],
        remoteFilesMap := remote_scan (listGoogleDriveFiles e None st) []\<rparr>"

text \<open>Lines 268-502: the four passes, with the \<open>saveSettings\<close> calls of lines 362, 449
  and 473.\<close>

definition reconcile :: "env \<Rightarrow> state \<Rightarrow> state" where
  "reconcile e st =
     remote_deletions e
       (saveSettings (local_deletions e (download_pass e (upload_pass e (snapshot e st)))))"

definition syncNow :: "env \<Rightarrow> state \<Rightarrow> state" where
  "syncNow e st =
     (if cloudProvider st = ''google-drive'' then
        (if token_ok e then
           (case findOrCreateAppFolder e st of
              (None, st1) \<Rightarrow> st1
            | (Some a, st1) \<Rightarrow>
               reconcile e
                 (case googleDriveAppFolderId st1 of
                    None \<Rightarrow> saveSettings (st1\<lparr>googleDriveAppFolderId := Some a\<rparr>)
                  | Some i \<Rightarrow> st1))
         else st)
      else st)"

section \<open>An environment without failures\<close>

text \<open>An environment in which nothing fails: every call succeeds, Drive stamps uploads
  with 5000 and the file system stamps writes with 6000.\<close>

definition env_ok :: env where
  "env_ok = \<lparr>token_ok = True, folder_lookup = Some ''F'',
     stat_throws = (\<lambda>p. False), read_throws = (\<lambda>p. False), write_throws = (\<lambda>p. False),
     delete_throws = (\<lambda>p. False), list_fails = (\<lambda>c. False), upload_fails = (\<lambda>p. False),
     download_fails = (\<lambda>i. False), remote_delete_fails = (\<lambda>i. False),
     fresh_id = (\<lambda>p. ''n'' @ p), server_clock = (\<lambda>p. 5000), fs_clock = (\<lambda>p. 6000),
     date_now = (\<lambda>p. 7000), iso_now = (\<lambda>p. ''T''), md5 = (\<lambda>c. c)\<rparr>"

section \<open>Inputs and predicates of the proofs\<close>

subsection \<open>For C8\<close>

text \<open>Snapshots used to exercise the steps: two new local files, a new local file, a new
  remote file, an entry whose local file is gone, and an entry whose remote object is
  gone.\<close>

definition st_two_new :: state where
  "st_two_new = \<lparr>cloudProvider = ''google-drive'', googleDriveAppFolderId = Some ''F'',
     fileMap = [], saved = [],
     vault = [(''a.md'', \<lparr>mtime = 10, data = ''A''\<rparr>), (''b.md'', \<lparr>mtime = 11, data = ''B''\<rparr>)],
     drive = [],
     localFiles = [(''a.md'', 10), (''b.md'', 11)], remoteFilesMap = []\<rparr>"

definition st_new_local :: state where
  "st_new_local = \<lparr>cloudProvider = ''google-drive'', googleDriveAppFolderId = Some ''F'',
     fileMap = [], saved = [],
     vault = [(''b.md'', \<lparr>mtime = 10, data = ''B''\<rparr>)],
     drive = [],
     localFiles = [(''b.md'', 10)], remoteFilesMap = []\<rparr>"

definition st_new_remote :: state where
  "st_new_remote = \<lparr>cloudProvider = ''google-drive'', googleDriveAppFolderId = Some ''F'',
     fileMap = [], saved = [],
     vault = [],
     drive = [\<lparr>fid = ''r2'', name = ''c.md'', mimeType = ''text/markdown'', modifiedTime = 20,
              md5Checksum = Some ''C'', body = ''C''\<rparr>],
     localFiles = [],
     remoteFilesMap = [(''c.md'', \<lparr>fid = ''r2'', name = ''c.md'', mimeType = ''text/markdown'',
              modifiedTime = 20, md5Checksum = Some ''C'', body = ''C''\<rparr>)]\<rparr>"

definition st_gone_local :: state where
  "st_gone_local = \<lparr>cloudProvider = ''google-drive'', googleDriveAppFolderId = Some ''F'',
     fileMap = [(''d.md'', \<lparr>remoteId = ''r3'', remoteMtime = Some 20, remoteMd5 = Some ''D'',
                            localMtimeEpoch = Some 10\<rparr>)],
     saved = [],
     vault = [],
     drive = [\<lparr>fid = ''r3'', name = ''d.md'', mimeType = ''text/markdown'', modifiedTime = 20,
              md5Checksum = Some ''D'', body = ''D''\<rparr>],
     localFiles = [],
     remoteFilesMap = [(''d.md'', \<lparr>fid = ''r3'', name = ''d.md'', mimeType = ''text/markdown'',
              modifiedTime = 20, md5Checksum = Some ''D'', body = ''D''\<rparr>)]\<rparr>"

definition st_gone_remote :: state where
  "st_gone_remote = \<lparr>cloudProvider = ''google-drive'', googleDriveAppFolderId = Some ''F'',
     fileMap = [(''d.md'', \<lparr>remoteId = ''r3'', remoteMtime = Some 20, remoteMd5 = Some ''D'',
                            localMtimeEpoch = Some 10\<rparr>)],
     saved = [],
     vault = [(''d.md'', \<lparr>mtime = 10, data = ''D''\<rparr>)],
     drive = [],
     localFiles = [(''d.md'', 10)],
     remoteFilesMap = []\<rparr>"

text \<open>An environment in which the upload of \<open>a.md\<close> fails and nothing else does.\<close>

definition env_upload_fails :: env where
  "env_upload_fails = env_ok\<lparr>upload_fails := (\<lambda>p. p = ''a.md'')\<rparr>"

definition remote_c :: DriveFile where
  "remote_c = \<lparr>fid = ''r2'', name = ''c.md'', mimeType = ''text/markdown'', modifiedTime = 20,
     md5Checksum = Some ''C'', body = ''C''\<rparr>"

subsection \<open>For C5\<close>

text \<open>The state in which the local-deletions loop reaches the key \<open>p\<close>.\<close>

definition local_deletions_before :: "env \<Rightarrow> path \<Rightarrow> state \<Rightarrow> state" where
  "local_deletions_before e p st =
     foldl (\<lambda>s q. local_deletion_step e q s) st (takeWhile (\<lambda>q. q \<noteq> p) (map fst (fileMap st)))"

text \<open>One remote-deletion step, seen from the entry and the local file of \<open>p\<close>.\<close>

definition after_remote_check :: "env \<Rightarrow> path \<Rightarrow> state \<Rightarrow> FileSyncState option \<times> LocalFile option" where
  "after_remote_check e p s =
     (case map_of (fileMap s) p of
        None \<Rightarrow> (None, map_of (vault s) p)
      | Some m \<Rightarrow>
         (case map_of (vault s) p of
            None \<Rightarrow> (None, None)
          | Some l \<Rightarrow> (if delete_throws e p then (Some m, Some l) else (None, None))))"

text \<open>An entry whose file is gone on both sides.\<close>

definition st_gone_both :: state where
  "st_gone_both = \<lparr>cloudProvider = ''google-drive'', googleDriveAppFolderId = Some ''F'',
     fileMap = [(''d.md'', \<lparr>remoteId = ''r3'', remoteMtime = Some 20, remoteMd5 = Some ''D'',
                            localMtimeEpoch = Some 10\<rparr>)],
     saved = [], vault = [], drive = [], localFiles = [], remoteFilesMap = []\<rparr>"

definition entry_d :: FileSyncState where
  "entry_d = \<lparr>remoteId = ''r3'', remoteMtime = Some 20, remoteMd5 = Some ''D'',
     localMtimeEpoch = Some 10\<rparr>"

subsection \<open>For C10\<close>

text \<open>A vault with a Markdown note, a text file and a Markdown file under
  \<open>.obsidian/\<close>; nothing is synced yet.\<close>

definition st_mixed :: state where
  "st_mixed = \<lparr>cloudProvider = ''google-drive'', googleDriveAppFolderId = Some ''F'',
     fileMap = [], saved = [],
     vault = [(''a.md'', \<lparr>mtime = 10, data = ''A''\<rparr>),
              (''x.txt'', \<lparr>mtime = 10, data = ''X''\<rparr>),
              (''.obsidian/w.md'', \<lparr>mtime = 10, data = ''W''\<rparr>)],
     drive = [], localFiles = [], remoteFilesMap = []\<rparr>"

subsection \<open>For C6\<close>

text \<open>A path whose local mtime 0 equals the recorded \<open>localMtimeEpoch\<close> and whose remote
  time -1 (one millisecond before the epoch) equals the recorded \<open>remoteMtime\<close>.\<close>

definition st_tie :: state where
  "st_tie = \<lparr>cloudProvider = ''google-drive'', googleDriveAppFolderId = Some ''F'',
     fileMap = [(''a.md'', \<lparr>remoteId = ''r1'', remoteMtime = Some (-1), remoteMd5 = Some ''R'',
                            localMtimeEpoch = Some 0\<rparr>)],
     saved = [],
     vault = [(''a.md'', \<lparr>mtime = 0, data = ''L''\<rparr>)],
     drive = [\<lparr>fid = ''r1'', name = ''a.md'', mimeType = ''text/markdown'', modifiedTime = -1,
              md5Checksum = Some ''R'', body = ''R''\<rparr>],
     localFiles = [], remoteFilesMap = []\<rparr>"

text \<open>A synced note whose times equal the recorded ones and are not zero.\<close>

definition st_tie_ok :: state where
  "st_tie_ok = \<lparr>cloudProvider = ''google-drive'', googleDriveAppFolderId = Some ''F'',
     fileMap = [(''a.md'', \<lparr>remoteId = ''r1'', remoteMtime = Some 20, remoteMd5 = Some ''R'',
                            localMtimeEpoch = Some 10\<rparr>)],
     saved = [],
     vault = [(''a.md'', \<lparr>mtime = 10, data = ''L''\<rparr>)],
     drive = [\<lparr>fid = ''r1'', name = ''a.md'', mimeType = ''text/markdown'', modifiedTime = 20,
              md5Checksum = Some ''R'', body = ''R''\<rparr>],
     localFiles = [], remoteFilesMap = []\<rparr>"

definition entry_a :: FileSyncState where
  "entry_a = \<lparr>remoteId = ''r1'', remoteMtime = Some 20, remoteMd5 = Some ''R'',
     localMtimeEpoch = Some 10\<rparr>"

definition remote_a :: DriveFile where
  "remote_a = \<lparr>fid = ''r1'', name = ''a.md'', mimeType = ''text/markdown'', modifiedTime = 20,
     md5Checksum = Some ''R'', body = ''R''\<rparr>"

text \<open>What the run knows about the path \<open>p\<close> while it is tied: its snapshot entries, its
  file-map entry and that the vault holds it; the snapshot maps have one entry per key.\<close>

definition tied :: "path \<Rightarrow> epoch \<Rightarrow> FileSyncState \<Rightarrow> DriveFile \<Rightarrow> state \<Rightarrow> bool" where
  "tied p t m f s =
     (distinct (map fst (localFiles s)) \<and> distinct (map fst (remoteFilesMap s))
      \<and> map_of (localFiles s) p = Some t \<and> map_of (fileMap s) p = Some m
      \<and> map_of (remoteFilesMap s) p = Some f \<and> map_of (vault s) p \<noteq> None)"

subsection \<open>For C4\<close>

text \<open>A synced note: vault, Drive and file map agree.\<close>

definition st_synced :: state where
  "st_synced = \<lparr>cloudProvider = ''google-drive'', googleDriveAppFolderId = Some ''F'',
     fileMap = [(''a.md'', \<lparr>remoteId = ''r1'', remoteMtime = Some 1000, remoteMd5 = Some ''A'',
                            localMtimeEpoch = Some 1000\<rparr>)],
     saved = [],
     vault = [(''a.md'', \<lparr>mtime = 1000, data = ''A''\<rparr>)],
     drive = [\<lparr>fid = ''r1'', name = ''a.md'', mimeType = ''text/markdown'', modifiedTime = 1000,
              md5Checksum = Some ''A'', body = ''A''\<rparr>],
     localFiles = [], remoteFilesMap = []\<rparr>"

definition env_stat_fails :: env where
  "env_stat_fails = env_ok\<lparr>stat_throws := (\<lambda>p. p = ''a.md'')\<rparr>"

definition env_list_fails :: env where
  "env_list_fails = env_ok\<lparr>list_fails := (\<lambda>c. c = None)\<rparr>"

text \<open>A path that the vault holds and the file map knows, but the local snapshot lacks.\<close>

definition unlisted :: "path \<Rightarrow> FileSyncState \<Rightarrow> state \<Rightarrow> bool" where
  "unlisted p m s =
     (map_of (localFiles s) p = None \<and> map_of (fileMap s) p = Some m
      \<and> map_of (vault s) p \<noteq> None)"

text \<open>A listed, unchanged local note whose remote side is missing from the snapshot.\<close>

definition remote_unlisted :: "path \<Rightarrow> epoch \<Rightarrow> FileSyncState \<Rightarrow> state \<Rightarrow> bool" where
  "remote_unlisted p t m s =
     (distinct (map fst (localFiles s)) \<and> map_of (localFiles s) p = Some t
      \<and> map_of (fileMap s) p = Some m \<and> map_of (remoteFilesMap s) p = None
      \<and> map_of (vault s) p \<noteq> None)"

text \<open>A vault with two notes, of which \<open>a.md\<close> cannot be read.\<close>

definition st_two_notes :: state where
  "st_two_notes = \<lparr>cloudProvider = ''google-drive'', googleDriveAppFolderId = Some ''F'',
     fileMap = [], saved = [],
     vault = [(''a.md'', \<lparr>mtime = 10, data = ''A''\<rparr>), (''b.md'', \<lparr>mtime = 11, data = ''B''\<rparr>)],
     drive = [], localFiles = [], remoteFilesMap = []\<rparr>"

definition entry_s :: FileSyncState where
  "entry_s = \<lparr>remoteId = ''r1'', remoteMtime = Some 1000, remoteMd5 = Some ''A'',
     localMtimeEpoch = Some 1000\<rparr>"

subsection \<open>For C1\<close>

text \<open>The entry records local and remote time 1000; the local note now has mtime 3000
  and the remote object time 2000, so both moved and the local edit is the later one.\<close>

definition st_conflict_local_later :: state where
  "st_conflict_local_later = \<lparr>cloudProvider = ''google-drive'', googleDriveAppFolderId = Some ''F'',
     fileMap = [(''a.md'', \<lparr>remoteId = ''r1'', remoteMtime = Some 1000, remoteMd5 = Some ''A'',
                            localMtimeEpoch = Some 1000\<rparr>)],
     saved = [],
     vault = [(''a.md'', \<lparr>mtime = 3000, data = ''L''\<rparr>)],
     drive = [\<lparr>fid = ''r1'', name = ''a.md'', mimeType = ''text/markdown'', modifiedTime = 2000,
              md5Checksum = Some ''R'', body = ''R''\<rparr>],
     localFiles = [], remoteFilesMap = []\<rparr>"

text \<open>The same with the remote edit as the later one: local mtime 2000, remote time 3000.\<close>

definition st_conflict_remote_later :: state where
  "st_conflict_remote_later = \<lparr>cloudProvider = ''google-drive'', googleDriveAppFolderId = Some ''F'',
     fileMap = [(''a.md'', \<lparr>remoteId = ''r1'', remoteMtime = Some 1000, remoteMd5 = Some ''A'',
                            localMtimeEpoch = Some 1000\<rparr>)],
     saved = [],
     vault = [(''a.md'', \<lparr>mtime = 2000, data = ''L''\<rparr>)],
     drive = [\<lparr>fid = ''r1'', name = ''a.md'', mimeType = ''text/markdown'', modifiedTime = 3000,
              md5Checksum = Some ''R'', body = ''R''\<rparr>],
     localFiles = [], remoteFilesMap = []\<rparr>"

subsection \<open>For C2\<close>

text \<open>A note that exists only on Drive.\<close>

definition st_remote_only :: state where
  "st_remote_only = \<lparr>cloudProvider = ''google-drive'', googleDriveAppFolderId = Some ''F'',
     fileMap = [], saved = [], vault = [],
     drive = [\<lparr>fid = ''r2'', name = ''c.md'', mimeType = ''text/markdown'', modifiedTime = 20,
              md5Checksum = Some ''C'', body = ''C''\<rparr>],
     localFiles = [], remoteFilesMap = []\<rparr>"

text \<open>The state the first run leaves.\<close>

definition st_after_first_run :: state where
  "st_after_first_run = \<lparr>cloudProvider = ''google-drive'', googleDriveAppFolderId = Some ''F'',
     fileMap = [],
     saved = [[], [(''c.md'', \<lparr>remoteId = ''r2'', remoteMtime = Some 20, remoteMd5 = Some ''C'',
                                 localMtimeEpoch = Some 6000\<rparr>)], []],
     vault = [(''c.md'', \<lparr>mtime = 6000, data = ''C''\<rparr>)],
     drive = [],
     localFiles = [],
     remoteFilesMap = [(''c.md'', \<lparr>fid = ''r2'', name = ''c.md'', mimeType = ''text/markdown'',
              modifiedTime = 20, md5Checksum = Some ''C'', body = ''C''\<rparr>)]\<rparr>"

subsection \<open>For C3\<close>

text \<open>A synced note that was edited locally: local mtime 2000, recorded 1000.\<close>

definition st_local_edit :: state where
  "st_local_edit = \<lparr>cloudProvider = ''google-drive'', googleDriveAppFolderId = Some ''F'',
     fileMap = [(''a.md'', \<lparr>remoteId = ''r1'', remoteMtime = Some 1000, remoteMd5 = Some ''A'',
                            localMtimeEpoch = Some 1000\<rparr>)],
     saved = [],
     vault = [(''a.md'', \<lparr>mtime = 2000, data = ''L''\<rparr>)],
     drive = [\<lparr>fid = ''r1'', name = ''a.md'', mimeType = ''text/markdown'', modifiedTime = 1000,
              md5Checksum = Some ''A'', body = ''A''\<rparr>],
     localFiles = [], remoteFilesMap = []\<rparr>"

subsection \<open>For C7\<close>

text \<open>A synced note whose remote object is gone.\<close>

definition st_remote_deleted :: state where
  "st_remote_deleted = \<lparr>cloudProvider = ''google-drive'', googleDriveAppFolderId = Some ''F'',
     fileMap = [(''a.md'', \<lparr>remoteId = ''r1'', remoteMtime = Some 1000, remoteMd5 = Some ''A'',
                            localMtimeEpoch = Some 1000\<rparr>)],
     saved = [],
     vault = [(''a.md'', \<lparr>mtime = 1000, data = ''A''\<rparr>)],
     drive = [], localFiles = [], remoteFilesMap = []\<rparr>"

section \<open>Facts about one iteration of the upload loop\<close>

lemma backup_local_frame:
  "fileMap (backup_local e p st) = fileMap st \<and> remoteFilesMap (backup_local e p st) = remoteFilesMap st
   \<and> drive (backup_local e p st) = drive st \<and> saved (backup_local e p st) = saved st"
  by (auto simp: backup_local_def createBinary_def split: outcome.splits option.splits)

lemma backup_local_localFiles:
  "localFiles (backup_local e p st) = localFiles st
   \<or> (\<exists>m. localFiles (backup_local e p st) = AList.update (conflictPath e p) m (localFiles st))"
  by (auto simp: backup_local_def createBinary_def split: outcome.splits option.splits)

lemma uploadGoogleDriveFile_frame:
  "uploadGoogleDriveFile e p c mt ex st = (r, st1) \<Longrightarrow>
     fileMap st1 = fileMap st \<and> remoteFilesMap st1 = remoteFilesMap st \<and> localFiles st1 = localFiles st
     \<and> vault st1 = vault st \<and> saved st1 = saved st"
  by (auto simp: uploadGoogleDriveFile_def split: if_splits option.splits)

lemma record_upload_frame:
  "localFiles (record_upload e p t r st) = localFiles st
   \<and> fst ` set (fileMap (record_upload e p t r st)) \<subseteq> insert p (fst ` set (fileMap st))
   \<and> fst ` set (remoteFilesMap (record_upload e p t r st)) \<subseteq> insert p (fst ` set (remoteFilesMap st))"
  by (auto simp: record_upload_def AList.dom_update split: option.splits)

lemma do_upload_frame:
  "localFiles (do_upload e p t opn m st) = localFiles st
   \<and> fst ` set (fileMap (do_upload e p t opn m st)) \<subseteq> insert p (fst ` set (fileMap st))
   \<and> fst ` set (remoteFilesMap (do_upload e p t opn m st)) \<subseteq> insert p (fst ` set (remoteFilesMap st))"
proof (cases "readBinary e st p")
  case Threw
  then show ?thesis by (auto simp: do_upload_def)
next
  case (Returned c)
  obtain r st1 where u: "uploadGoogleDriveFile e p c
      (if endsWith p ''.md'' then ''text/markdown'' else ''application/octet-stream'')
      (existingRemoteFileId opn m) st = (r, st1)"
    by (cases "uploadGoogleDriveFile e p c
      (if endsWith p ''.md'' then ''text/markdown'' else ''application/octet-stream'')
      (existingRemoteFileId opn m) st") 
  from uploadGoogleDriveFile_frame[OF u] record_upload_frame[of e p t _ st1] Returned u
  show ?thesis
    by (auto simp: do_upload_def split: option.splits)
qed

lemma upload_case_Conflict:
  "upload_case_of m t cur = Conflict \<Longrightarrow> m \<noteq> None \<and> cur \<noteq> None"
  by (auto simp: upload_case_of_def split: option.splits if_splits)

lemma map_of_dom: "map_of xs p \<noteq> None \<longleftrightarrow> p \<in> fst ` set xs"
  by (simp add: map_of_eq_None_iff)

lemma map_of_Some_dom: "map_of xs p = Some y \<Longrightarrow> p \<in> fst ` set xs"
  by (metis map_of_dom option.distinct(1))

lemma upload_iter_cases:
  "(localFiles (upload_iter e kv st) = localFiles st
      \<and> conflict_candidates (upload_iter e kv st) \<subseteq> insert (fst kv) (conflict_candidates st))
   \<or> (conflict_candidates (upload_iter e kv st) = conflict_candidates st
      \<and> fst kv \<in> conflict_candidates st
      \<and> (\<exists>cp m. localFiles (upload_iter e kv st) = AList.update cp m (localFiles st)))"
proof (cases "upload_case_of (map_of (fileMap st) (fst kv)) (snd kv) (map_of (remoteFilesMap st) (fst kv)) = Conflict")
  case True
  then have it: "upload_iter e kv st = backup_local e (fst kv) st"
    by (simp add: upload_iter_def)
  from upload_case_Conflict[OF True] have "fst kv \<in> conflict_candidates st"
    by (auto simp: conflict_candidates_def dest: map_of_Some_dom)
  with backup_local_frame[of e "fst kv" st] backup_local_localFiles[of e "fst kv" st] it
  show ?thesis by (auto simp: conflict_candidates_def)
next
  case False
  then have it: "upload_iter e kv st = st \<or> (\<exists>opn. upload_iter e kv st = do_upload e (fst kv) (snd kv) opn (map_of (fileMap st) (fst kv)) st)"
    by (auto simp: upload_iter_def Let_def)
  then show ?thesis
  proof
    assume "upload_iter e kv st = st"
    then show ?thesis by auto
  next
    assume "\<exists>opn. upload_iter e kv st = do_upload e (fst kv) (snd kv) opn (map_of (fileMap st) (fst kv)) st"
    then obtain opn where eq: "upload_iter e kv st = do_upload e (fst kv) (snd kv) opn (map_of (fileMap st) (fst kv)) st"
      by blast
    from do_upload_frame[of e "fst kv" "snd kv" opn "map_of (fileMap st) (fst kv)" st]
    show ?thesis unfolding eq conflict_candidates_def by blast
  qed
qed

section \<open>C9: an absent or zero recorded local mtime counts as a local change\<close>

text \<open>
  C9. For a path with a sync-state entry whose \<open>localMtimeEpoch\<close> is absent or zero, the
  upload-direction comparison treats the local file as changed whatever its mtime is: the
  path is never classified as unchanged, and the outcome is the conflict, update-upload or
  defer-to-download decision.
\<close>

theorem C9_absent_or_zero_local_mtime_counts_as_changed:
  assumes "localMtimeEpoch m = None \<or> localMtimeEpoch m = Some 0"
  shows "local_changed m t
     \<and> upload_case_of (Some m) t cur \<noteq> LocalUnchanged
     \<and> upload_case_of (Some m) t cur =
         (if cur \<noteq> None \<and> currentRemoteMtimeEpoch cur > lastKnownRemoteMtimeEpoch m then Conflict
          else if t > currentRemoteMtimeEpoch cur then LocalNewer
          else RemoteSameOrNewer)"
  using assms by (auto simp: local_changed_def upload_case_of_def)

theorem C9_witness:
  "localMtimeEpoch \<lparr>remoteId = ''r'', remoteMtime = Some 7, remoteMd5 = None, localMtimeEpoch = Some 0\<rparr> = Some 0
   \<and> upload_case_of (Some \<lparr>remoteId = ''r'', remoteMtime = Some 7, remoteMd5 = None, localMtimeEpoch = Some 0\<rparr>)
         (-5) None = RemoteSameOrNewer
   \<and> upload_case_of (Some \<lparr>remoteId = ''r'', remoteMtime = Some 7, remoteMd5 = None, localMtimeEpoch = None\<rparr>)
         9 None = LocalNewer"
  using C9_absent_or_zero_local_mtime_counts_as_changed
          [of "\<lparr>remoteId = ''r'', remoteMtime = Some 7, remoteMd5 = None, localMtimeEpoch = Some 0\<rparr>" "-5" None]
        C9_absent_or_zero_local_mtime_counts_as_changed
          [of "\<lparr>remoteId = ''r'', remoteMtime = Some 7, remoteMd5 = None, localMtimeEpoch = None\<rparr>" 9 None]
  by (simp add: currentRemoteMtimeEpoch_def lastKnownRemoteMtimeEpoch_def)

section \<open>C8: when the file map changes\<close>

lemma uploadGoogleDriveFile_stored:
  "uploadGoogleDriveFile e p c mt ex st = (Some r, st1) \<Longrightarrow>
     \<exists>f\<in>set (drive st1). fid f = r \<and> name f = p \<and> body f = c"
proof (cases ex)
  case None
  assume "uploadGoogleDriveFile e p c mt ex st = (Some r, st1)"
  with None show ?thesis
    by (auto simp: uploadGoogleDriveFile_def split: if_splits)
next
  case (Some i)
  assume u: "uploadGoogleDriveFile e p c mt ex st = (Some r, st1)"
  with Some have mem: "i \<in> fid ` set (drive st)" and r: "r = i"
    and st1: "st1 = st\<lparr>drive := map (\<lambda>f. if fid f = i
                 then f\<lparr>name := p, mimeType := mt, modifiedTime := server_clock e p,
                        md5Checksum := Some (md5 e c), body := c\<rparr>
                 else f) (drive st)\<rparr>"
    by (simp_all add: uploadGoogleDriveFile_def split: if_splits) blast+
  from mem obtain x where x: "x \<in> set (drive st)" "fid x = i" by auto
  let ?y = "x\<lparr>name := p, mimeType := mt, modifiedTime := server_clock e p,
                        md5Checksum := Some (md5 e c), body := c\<rparr>"
  from x have "?y \<in> set (drive st1)"
    unfolding st1 by (simp add: image_iff) blast
  with x r show ?thesis by (intro bexI) auto
qed

lemma uploadGoogleDriveFile_failed:
  "upload_fails e p \<Longrightarrow> uploadGoogleDriveFile e p c mt ex st = (None, st)"
  by (simp add: uploadGoogleDriveFile_def)

lemma record_upload_fileMap:
  "drive (record_upload e p t r st) = drive st
   \<and> vault (record_upload e p t r st) = vault st
   \<and> saved (record_upload e p t r st) = saved st
   \<and> map_option remoteId (map_of (fileMap (record_upload e p t r st)) p) = Some r
   \<and> (q \<noteq> p \<longrightarrow> map_of (fileMap (record_upload e p t r st)) q = map_of (fileMap st) q)"
  by (auto simp: record_upload_def update_conv' split: option.splits)

lemma do_upload_changes:
  assumes "map_of (fileMap (do_upload e p t opn m st)) q \<noteq> map_of (fileMap st) q"
  shows "q = p \<and> (\<exists>c. readBinary e st p = Returned c
      \<and> (\<exists>f\<in>set (drive (do_upload e p t opn m st)). name f = p \<and> body f = c
            \<and> map_option remoteId (map_of (fileMap (do_upload e p t opn m st)) p) = Some (fid f)))"
proof (cases "readBinary e st p")
  case Threw
  with assms show ?thesis by (simp add: do_upload_def)
next
  case (Returned c)
  obtain r st1 where u: "uploadGoogleDriveFile e p c
      (if endsWith p ''.md'' then ''text/markdown'' else ''application/octet-stream'')
      (existingRemoteFileId opn m) st = (r, st1)"
    by (cases "uploadGoogleDriveFile e p c
      (if endsWith p ''.md'' then ''text/markdown'' else ''application/octet-stream'')
      (existingRemoteFileId opn m) st")
  note fr = uploadGoogleDriveFile_frame[OF u]
  show ?thesis
  proof (cases r)
    case None
    with assms Returned u fr show ?thesis by (simp add: do_upload_def)
  next
    case (Some i)
    with assms Returned u fr have ne: "i \<noteq> []"
      and eq: "do_upload e p t opn m st = record_upload e p t i st1"
      by (auto simp: do_upload_def split: if_splits)
    from u Some obtain f where f: "f \<in> set (drive st1)" "fid f = i" "name f = p" "body f = c"
      using uploadGoogleDriveFile_stored by blast
    from assms eq fr record_upload_fileMap[of e p t i st1 q] have "q = p" by auto
    with f Returned eq record_upload_fileMap[of e p t i st1 q] show ?thesis by auto
  qed
qed

lemma upload_iter_changes:
  assumes "map_of (fileMap (upload_iter e (p, t) st)) q \<noteq> map_of (fileMap st) q"
  shows "q = p \<and> (\<exists>c. readBinary e st p = Returned c
      \<and> (\<exists>f\<in>set (drive (upload_iter e (p, t) st)). name f = p \<and> body f = c
            \<and> map_option remoteId (map_of (fileMap (upload_iter e (p, t) st)) p) = Some (fid f)))"
proof (cases "upload_case_of (map_of (fileMap st) p) t (map_of (remoteFilesMap st) p) = Conflict")
  case True
  then have "upload_iter e (p, t) st = backup_local e p st"
    by (simp add: upload_iter_def)
  with assms backup_local_frame[of e p st] show ?thesis by simp
next
  case False
  show ?thesis
  proof (cases "upload_operation (upload_case_of (map_of (fileMap st) p) t (map_of (remoteFilesMap st) p)) = skip")
    case True
    with False assms show ?thesis by (simp add: upload_iter_def)
  next
    case nskip: False
    with False have "upload_iter e (p, t) st =
        do_upload e p t (upload_operation (upload_case_of (map_of (fileMap st) p) t (map_of (remoteFilesMap st) p)))
          (map_of (fileMap st) p) st"
      by (simp add: upload_iter_def Let_def)
    with assms do_upload_changes show ?thesis by metis
  qed
qed

lemma upload_iter_failure:
  assumes "readBinary e st p = Threw \<or> upload_fails e p"
  shows "fileMap (upload_iter e (p, t) st) = fileMap st"
proof -
  have d: "fileMap (do_upload e p t opn m st) = fileMap st" for opn m
    using assms by (auto simp: do_upload_def uploadGoogleDriveFile_failed split: outcome.splits)
  show ?thesis
    using d backup_local_frame[of e p st] by (simp add: upload_iter_def Let_def)
qed

lemma write_download_stored:
  "write_download e p c opn st = Returned st1 \<Longrightarrow>
     map_option data (map_of (vault st1) p) = Some c \<and> fileMap st1 = fileMap st \<and> drive st1 = drive st
     \<and> saved st1 = saved st"
  by (auto simp: write_download_def createBinary_def modifyBinary_def update_conv' map_add_def
        split: if_splits option.splits)

lemma download_iter_changes:
  assumes "map_of (fileMap (download_iter e (p, f) st)) q \<noteq> map_of (fileMap st) q"
  shows "q = p \<and> (\<exists>c. downloadGoogleDriveFile e (fid f) st = Some c
      \<and> map_option data (map_of (vault (download_iter e (p, f) st)) p) = Some c)"
proof -
  let ?opn = "download_operation (download_case_of (map_of (localFiles st) p) (map_of (fileMap st) p) f)"
  from assms have it: "download_iter e (p, f) st = do_download e p f ?opn st"
    by (auto simp: download_iter_def Let_def split: if_splits)
  from assms it obtain c where c: "downloadGoogleDriveFile e (fid f) st = Some c"
    by (cases "downloadGoogleDriveFile e (fid f) st") (auto simp: do_download_def)
  from assms it c obtain st1 where w: "write_download e p c ?opn st = Returned st1"
    by (cases "write_download e p c ?opn st") (auto simp: do_download_def)
  note ws = write_download_stored[OF w]
  from assms it c w ws show ?thesis
    by (cases "stat e st1 p") (auto simp: do_download_def update_conv' split: if_splits)
qed

lemma local_deletion_step_changes:
  assumes "map_of (fileMap (local_deletion_step e p st)) q \<noteq> map_of (fileMap st) q"
  shows "q = p \<and> map_of (fileMap (local_deletion_step e p st)) p = None
     \<and> (\<exists>m. map_of (fileMap st) p = Some m \<and> fst (deleteGoogleDriveFile e (remoteId m) st)
           \<and> remoteId m \<notin> fid ` set (drive (local_deletion_step e p st)))"
  using assms
  by (auto simp: local_deletion_step_def deleteGoogleDriveFile_def delete_conv'
        split: option.splits if_splits)

lemma remote_deletion_step_changes:
  assumes "map_of (fileMap (remote_deletion_step e p st)) q \<noteq> map_of (fileMap st) q"
  shows "q = p \<and> map_of (fileMap (remote_deletion_step e p st)) p = None
     \<and> map_of (remoteFilesMap st) p = None
     \<and> (if map_of (vault st) p = None
         then vault (remote_deletion_step e p st) = vault st
              \<and> drive (remote_deletion_step e p st) = drive st
         else delete_throws e p = False
              \<and> map_of (vault (remote_deletion_step e p st)) p = None)"
  using assms
  by (auto simp: remote_deletion_step_def vault_delete_def delete_conv'
        split: option.splits if_splits)

lemma upload_iter_entry_of_other:
  "fst kv \<noteq> q \<Longrightarrow> map_of (fileMap (upload_iter e kv st)) q = map_of (fileMap st) q"
  using upload_iter_changes[of e "fst kv" "snd kv" st q] by auto

lemma pending_head:
  "pending visited st = kv # rest \<Longrightarrow> fst kv \<notin> set visited \<and> kv \<in> set (localFiles st)"
proof -
  assume "pending visited st = kv # rest"
  then have "kv \<in> set (filter (\<lambda>kv. fst kv \<notin> set visited) (localFiles st))"
    by (simp add: pending_def)
  then show ?thesis by simp
qed

lemma upload_loop_failed_entry:
  "read_throws e p \<or> upload_fails e p \<Longrightarrow>
     map_of (fileMap (upload_loop e visited st)) p = map_of (fileMap st) p"
proof (induction e visited st rule: upload_loop.induct)
  case (1 e visited st)
  show ?case
  proof (cases "pending visited st")
    case Nil
    then show ?thesis by (subst upload_loop.simps) simp
  next
    case (Cons kv rest)
    have step: "map_of (fileMap (upload_iter e kv st)) p = map_of (fileMap st) p"
    proof (cases "fst kv = p")
      case True
      from 1(2) have "readBinary e st p = Threw \<or> upload_fails e p"
        by (auto simp: readBinary_def)
      from upload_iter_failure[OF this, of "snd kv"] True show ?thesis
        by (cases kv) auto
    next
      case False
      then show ?thesis by (rule upload_iter_entry_of_other)
    qed
    have "upload_loop e visited st = upload_loop e (fst kv # visited) (upload_iter e kv st)"
      using Cons by (subst upload_loop.simps) simp
    with 1(1)[OF Cons 1(2)] step show ?thesis by simp
  qed
qed

lemma upload_loop_visited_entry:
  "q \<in> set visited \<Longrightarrow>
     map_of (fileMap (upload_loop e visited st)) q = map_of (fileMap st) q"
proof (induction e visited st rule: upload_loop.induct)
  case (1 e visited st)
  show ?case
  proof (cases "pending visited st")
    case Nil
    then show ?thesis by (subst upload_loop.simps) simp
  next
    case (Cons kv rest)
    from pending_head[OF Cons] 1(2) have "fst kv \<noteq> q" by auto
    then have step: "map_of (fileMap (upload_iter e kv st)) q = map_of (fileMap st) q"
      by (rule upload_iter_entry_of_other)
    have "upload_loop e visited st = upload_loop e (fst kv # visited) (upload_iter e kv st)"
      using Cons by (subst upload_loop.simps) simp
    with 1(1)[OF Cons] 1(2) step show ?thesis by simp
  qed
qed

lemma upload_iter_vault_keeps:
  "map_of (vault st) q = Some l \<Longrightarrow> map_of (vault (upload_iter e kv st)) q = Some l"
proof -
  assume v: "map_of (vault st) q = Some l"
  have b: "map_of (vault (backup_local e (fst kv) st)) q = Some l"
    using v by (auto simp: backup_local_def createBinary_def split: outcome.splits option.splits)
  have d: "vault (do_upload e k t opn m s) = vault s" for k t opn m s
  proof (cases "readBinary e s k")
    case Threw
    then show ?thesis by (simp add: do_upload_def)
  next
    case (Returned c)
    obtain r s1 where u: "uploadGoogleDriveFile e k c
        (if endsWith k ''.md'' then ''text/markdown'' else ''application/octet-stream'')
        (existingRemoteFileId opn m) s = (r, s1)"
      by (cases "uploadGoogleDriveFile e k c
        (if endsWith k ''.md'' then ''text/markdown'' else ''application/octet-stream'')
        (existingRemoteFileId opn m) s") simp
    then have "vault s1 = vault s"
      by (auto simp: uploadGoogleDriveFile_def split: if_splits option.splits)
    with Returned u show ?thesis
      using record_upload_fileMap[of e k t _ s1]
      by (cases r) (simp_all add: do_upload_def)
  qed
  from v b d show ?thesis
    by (simp add: upload_iter_def Let_def)
qed

lemma upload_iter_new_file:
  assumes "map_of (fileMap st) q = None" and "map_of (vault st) q = Some l"
    and "read_throws e q = False" and "upload_fails e q = False" and "fresh_id e q \<noteq> []"
  shows "map_option remoteId (map_of (fileMap (upload_iter e (q, t) st)) q) = Some (fresh_id e q)"
proof -
  from assms(1) have c: "upload_case_of (map_of (fileMap st) q) t (map_of (remoteFilesMap st) q)
      = NewLocalFile"
    by (simp add: upload_case_of_def)
  from assms(2,3) have r: "readBinary e st q = Returned (data l)"
    by (simp add: readBinary_def)
  from c r assms(1,4,5) show ?thesis
    using record_upload_fileMap[of e q t "fresh_id e q"]
    by (simp add: upload_iter_def Let_def do_upload_def uploadGoogleDriveFile_def
          existingRemoteFileId_def)
qed

lemma upload_loop_uploads_new:
  assumes "q \<in> fst ` set (localFiles st)" and "q \<notin> set visited"
    and "map_of (fileMap st) q = None" and "map_of (vault st) q = Some l"
    and "read_throws e q = False" and "upload_fails e q = False" and "fresh_id e q \<noteq> []"
  shows "map_option remoteId (map_of (fileMap (upload_loop e visited st)) q)
     = Some (fresh_id e q)"
  using assms
proof (induction e visited st rule: upload_loop.induct)
  case (1 e visited st)
  from 1(2,3) obtain kv0 where "kv0 \<in> set (pending visited st)"
    by (auto simp: pending_def)
  then obtain kv rest where Cons: "pending visited st = kv # rest"
    by (cases "pending visited st") auto
  have eq: "upload_loop e visited st = upload_loop e (fst kv # visited) (upload_iter e kv st)"
    using Cons by (subst upload_loop.simps) simp
  show ?case
  proof (cases "fst kv = q")
    case True
    then have kv: "kv = (q, snd kv)" by (cases kv) simp
    have "map_option remoteId (map_of (fileMap (upload_iter e kv st)) q) = Some (fresh_id e q)"
      using upload_iter_new_file[OF 1(4,5,6,7,8), of "snd kv"] kv by simp
    moreover have "map_of (fileMap (upload_loop e (fst kv # visited) (upload_iter e kv st))) q
        = map_of (fileMap (upload_iter e kv st)) q"
      using True by (intro upload_loop_visited_entry) simp
    ultimately show ?thesis using eq by simp
  next
    case False
    from upload_iter_cases[of e kv st]
    have "localFiles (upload_iter e kv st) = localFiles st
        \<or> (\<exists>cp m. localFiles (upload_iter e kv st) = AList.update cp m (localFiles st))"
      by blast
    then have keys: "q \<in> fst ` set (localFiles (upload_iter e kv st))"
      using 1(2) by (elim disjE exE) (simp_all add: dom_update)
    have nv: "q \<notin> set (fst kv # visited)"
      using False 1(3) by simp
    have fm: "map_of (fileMap (upload_iter e kv st)) q = None"
      using upload_iter_entry_of_other[OF False, of e st] 1(4) by simp
    have vl: "map_of (vault (upload_iter e kv st)) q = Some l"
      using 1(5) by (rule upload_iter_vault_keeps)
    from 1(1)[OF Cons keys nv fm vl 1(6,7,8)] eq show ?thesis by simp
  qed
qed

text \<open>
  C8, as stated, fails. The entry of \<open>d.md\<close> has no local file and no remote object. In the
  local-deletions step the remote delete returns false and the entry stays; the
  remote-deletions step then removes the entry (line 500) although no upload, download or
  delete was made for the path: vault and Drive are empty before and after the run.
\<close>

theorem C8_counterexample:
  "map_of (fileMap st_gone_both) ''d.md'' = Some entry_d
   \<and> vault st_gone_both = [] \<and> drive st_gone_both = []
   \<and> fst (deleteGoogleDriveFile env_ok (remoteId entry_d) st_gone_both) = False
   \<and> local_deletion_step env_ok ''d.md'' st_gone_both = st_gone_both
   \<and> remote_deletion_step env_ok ''d.md'' st_gone_both = st_gone_both\<lparr>fileMap := []\<rparr>
   \<and> (let s = syncNow env_ok st_gone_both in
        fileMap s = [] \<and> vault s = [] \<and> drive s = [])"
  by code_simp

text \<open>
  C8, amended. A failed upload (the local read throws, or the upload returns no id) leaves
  the file map as it was, the path's entry is the same after the whole upload loop, and
  the loop goes on: a new local file that is still pending is uploaded and gets its entry,
  whichever other paths fail. In every per-path step, an entry of the file map differs
  afterwards only for the step's own path, and then: after an upload, Drive holds the
  local content under the recorded id; after a download, the vault holds the downloaded
  content; after a local-deletion step, the remote delete returned true and the object is
  gone; after a remote-deletion step, the path was not in the remote snapshot and either
  its local file was deleted, or it had no local file, and then the entry is removed
  without any operation (line 500).
\<close>

theorem C8_file_map_changes_after_success_or_absence:
  "(readBinary e st p = Threw \<or> upload_fails e p \<longrightarrow>
       fileMap (upload_iter e (p, t) st) = fileMap st)
   \<and> (read_throws e p \<or> upload_fails e p \<longrightarrow>
       map_of (fileMap (upload_loop e visited st)) p = map_of (fileMap st) p)
   \<and> (n \<in> fst ` set (localFiles st) \<and> n \<notin> set visited \<and> map_of (fileMap st) n = None
        \<and> map_of (vault st) n = Some l \<and> read_throws e n = False \<and> upload_fails e n = False
        \<and> fresh_id e n \<noteq> [] \<longrightarrow>
       map_option remoteId (map_of (fileMap (upload_loop e visited st)) n) = Some (fresh_id e n))
   \<and> (map_of (fileMap (upload_iter e (p, t) st)) q \<noteq> map_of (fileMap st) q \<longrightarrow>
       q = p \<and> (\<exists>c. readBinary e st p = Returned c
         \<and> (\<exists>f\<in>set (drive (upload_iter e (p, t) st)). name f = p \<and> body f = c
               \<and> map_option remoteId (map_of (fileMap (upload_iter e (p, t) st)) p) = Some (fid f))))
   \<and> (map_of (fileMap (download_iter e (p, f) st)) q \<noteq> map_of (fileMap st) q \<longrightarrow>
       q = p \<and> (\<exists>c. downloadGoogleDriveFile e (fid f) st = Some c
         \<and> map_option data (map_of (vault (download_iter e (p, f) st)) p) = Some c))
   \<and> (map_of (fileMap (local_deletion_step e p st)) q \<noteq> map_of (fileMap st) q \<longrightarrow>
       q = p \<and> map_of (fileMap (local_deletion_step e p st)) p = None
       \<and> (\<exists>m. map_of (fileMap st) p = Some m \<and> fst (deleteGoogleDriveFile e (remoteId m) st)
             \<and> remoteId m \<notin> fid ` set (drive (local_deletion_step e p st))))
   \<and> (map_of (fileMap (remote_deletion_step e p st)) q \<noteq> map_of (fileMap st) q \<longrightarrow>
       q = p \<and> map_of (fileMap (remote_deletion_step e p st)) p = None
       \<and> map_of (remoteFilesMap st) p = None
       \<and> (if map_of (vault st) p = None
           then vault (remote_deletion_step e p st) = vault st
                \<and> drive (remote_deletion_step e p st) = drive st
           else delete_throws e p = False
                \<and> map_of (vault (remote_deletion_step e p st)) p = None))"
proof (intro conjI impI)
  assume "readBinary e st p = Threw \<or> upload_fails e p"
  then show "fileMap (upload_iter e (p, t) st) = fileMap st" by (rule upload_iter_failure)
next
  assume "read_throws e p \<or> upload_fails e p"
  then show "map_of (fileMap (upload_loop e visited st)) p = map_of (fileMap st) p"
    by (rule upload_loop_failed_entry)
next
  assume "n \<in> fst ` set (localFiles st) \<and> n \<notin> set visited \<and> map_of (fileMap st) n = None
        \<and> map_of (vault st) n = Some l \<and> read_throws e n = False \<and> upload_fails e n = False
        \<and> fresh_id e n \<noteq> []"
  then show "map_option remoteId (map_of (fileMap (upload_loop e visited st)) n)
      = Some (fresh_id e n)"
    using upload_loop_uploads_new[of n st visited l e] by blast
qed (use upload_iter_changes download_iter_changes local_deletion_step_changes
       remote_deletion_step_changes in blast)+

theorem C8_witness:
  "(upload_fails env_upload_fails ''a.md''
      \<and> fileMap (upload_iter env_upload_fails (''a.md'', 10) st_two_new) = fileMap st_two_new)
   \<and> map_of (fileMap (upload_loop env_upload_fails [] st_two_new)) ''a.md''
        = map_of (fileMap st_two_new) ''a.md''
   \<and> (map_of (fileMap st_two_new) ''b.md'' = None
      \<and> map_option remoteId (map_of (fileMap (upload_loop env_upload_fails [] st_two_new)) ''b.md'')
          = Some (fresh_id env_upload_fails ''b.md''))
   \<and> (map_of (fileMap (upload_iter env_ok (''b.md'', 10) st_new_local)) ''b.md''
          \<noteq> map_of (fileMap st_new_local) ''b.md''
      \<and> (\<exists>c. readBinary env_ok st_new_local ''b.md'' = Returned c
         \<and> (\<exists>f\<in>set (drive (upload_iter env_ok (''b.md'', 10) st_new_local)).
               name f = ''b.md'' \<and> body f = c
               \<and> map_option remoteId
                    (map_of (fileMap (upload_iter env_ok (''b.md'', 10) st_new_local)) ''b.md'')
                  = Some (fid f))))
   \<and> (map_of (fileMap (download_iter env_ok (''c.md'', remote_c) st_new_remote)) ''c.md''
          \<noteq> map_of (fileMap st_new_remote) ''c.md''
      \<and> (\<exists>c. downloadGoogleDriveFile env_ok (fid remote_c) st_new_remote = Some c
         \<and> map_option data
              (map_of (vault (download_iter env_ok (''c.md'', remote_c) st_new_remote)) ''c.md'')
            = Some c))
   \<and> (map_of (fileMap (local_deletion_step env_ok ''d.md'' st_gone_local)) ''d.md''
          \<noteq> map_of (fileMap st_gone_local) ''d.md''
      \<and> map_of (fileMap (local_deletion_step env_ok ''d.md'' st_gone_local)) ''d.md'' = None
      \<and> (\<exists>m. map_of (fileMap st_gone_local) ''d.md'' = Some m
         \<and> fst (deleteGoogleDriveFile env_ok (remoteId m) st_gone_local)
         \<and> remoteId m \<notin> fid ` set (drive (local_deletion_step env_ok ''d.md'' st_gone_local))))
   \<and> (map_of (fileMap (remote_deletion_step env_ok ''d.md'' st_gone_remote)) ''d.md''
          \<noteq> map_of (fileMap st_gone_remote) ''d.md''
      \<and> map_of (vault st_gone_remote) ''d.md'' \<noteq> None
      \<and> map_of (fileMap (remote_deletion_step env_ok ''d.md'' st_gone_remote)) ''d.md'' = None
      \<and> delete_throws env_ok ''d.md'' = False
      \<and> map_of (vault (remote_deletion_step env_ok ''d.md'' st_gone_remote)) ''d.md'' = None)
   \<and> (map_of (fileMap (remote_deletion_step env_ok ''d.md'' st_gone_both)) ''d.md''
          \<noteq> map_of (fileMap st_gone_both) ''d.md''
      \<and> map_of (vault st_gone_both) ''d.md'' = None
      \<and> map_of (fileMap (remote_deletion_step env_ok ''d.md'' st_gone_both)) ''d.md'' = None
      \<and> vault (remote_deletion_step env_ok ''d.md'' st_gone_both) = vault st_gone_both
      \<and> drive (remote_deletion_step env_ok ''d.md'' st_gone_both) = drive st_gone_both)"
proof -
  have a1: "upload_fails env_upload_fails ''a.md''"
    by code_simp
  have a2: "''b.md'' \<in> fst ` set (localFiles st_two_new) \<and> ''b.md'' \<notin> set []
        \<and> map_of (fileMap st_two_new) ''b.md'' = None
        \<and> map_of (vault st_two_new) ''b.md'' = Some \<lparr>mtime = 11, data = ''B''\<rparr>
        \<and> read_throws env_upload_fails ''b.md'' = False
        \<and> upload_fails env_upload_fails ''b.md'' = False
        \<and> fresh_id env_upload_fails ''b.md'' \<noteq> []"
    by (simp add: st_two_new_def env_upload_fails_def env_ok_def)
  have a3: "map_of (fileMap (upload_iter env_ok (''b.md'', 10) st_new_local)) ''b.md''
          \<noteq> map_of (fileMap st_new_local) ''b.md''"
    by code_simp
  have a4: "map_of (fileMap (download_iter env_ok (''c.md'', remote_c) st_new_remote)) ''c.md''
          \<noteq> map_of (fileMap st_new_remote) ''c.md''"
    by code_simp
  have a5: "map_of (fileMap (local_deletion_step env_ok ''d.md'' st_gone_local)) ''d.md''
          \<noteq> map_of (fileMap st_gone_local) ''d.md''"
    by code_simp
  have a6: "map_of (fileMap (remote_deletion_step env_ok ''d.md'' st_gone_remote)) ''d.md''
          \<noteq> map_of (fileMap st_gone_remote) ''d.md''"
    and b6: "map_of (vault st_gone_remote) ''d.md'' \<noteq> None"
    by code_simp+
  have a7: "map_of (fileMap (remote_deletion_step env_ok ''d.md'' st_gone_both)) ''d.md''
          \<noteq> map_of (fileMap st_gone_both) ''d.md''"
    and b7: "map_of (vault st_gone_both) ''d.md'' = None"
    by code_simp+
  note t1 = C8_file_map_changes_after_success_or_absence
      [of env_upload_fails st_two_new "''a.md''" 10 "[]" "''b.md''" "\<lparr>mtime = 11, data = ''B''\<rparr>"
          "''a.md''" remote_c]
  note t2 = C8_file_map_changes_after_success_or_absence
      [of env_ok st_new_local "''b.md''" 10 "[]" "''b.md''" "\<lparr>mtime = 11, data = ''B''\<rparr>"
          "''b.md''" remote_c]
  note t4 = C8_file_map_changes_after_success_or_absence
      [of env_ok st_new_remote "''c.md''" 10 "[]" "''b.md''" "\<lparr>mtime = 11, data = ''B''\<rparr>"
          "''c.md''" remote_c]
  note t5 = C8_file_map_changes_after_success_or_absence
      [of env_ok st_gone_local "''d.md''" 10 "[]" "''b.md''" "\<lparr>mtime = 11, data = ''B''\<rparr>"
          "''d.md''" remote_c]
  note t6 = C8_file_map_changes_after_success_or_absence
      [of env_ok st_gone_remote "''d.md''" 10 "[]" "''b.md''" "\<lparr>mtime = 11, data = ''B''\<rparr>"
          "''d.md''" remote_c]
  note t7 = C8_file_map_changes_after_success_or_absence
      [of env_ok st_gone_both "''d.md''" 10 "[]" "''b.md''" "\<lparr>mtime = 11, data = ''B''\<rparr>"
          "''d.md''" remote_c]
  from t1[THEN conjunct1] a1 have p1: "upload_fails env_upload_fails ''a.md''
      \<and> fileMap (upload_iter env_upload_fails (''a.md'', 10) st_two_new) = fileMap st_two_new"
    by blast
  from t1[THEN conjunct2, THEN conjunct1] a1
  have p2: "map_of (fileMap (upload_loop env_upload_fails [] st_two_new)) ''a.md''
        = map_of (fileMap st_two_new) ''a.md''"
    by blast
  from t1[THEN conjunct2, THEN conjunct2, THEN conjunct1] a2
  have p3: "map_of (fileMap st_two_new) ''b.md'' = None
      \<and> map_option remoteId (map_of (fileMap (upload_loop env_upload_fails [] st_two_new)) ''b.md'')
          = Some (fresh_id env_upload_fails ''b.md'')"
    by blast
  have p4: "map_of (fileMap (upload_iter env_ok (''b.md'', 10) st_new_local)) ''b.md''
          \<noteq> map_of (fileMap st_new_local) ''b.md''
      \<and> (\<exists>c. readBinary env_ok st_new_local ''b.md'' = Returned c
         \<and> (\<exists>f\<in>set (drive (upload_iter env_ok (''b.md'', 10) st_new_local)).
               name f = ''b.md'' \<and> body f = c
               \<and> map_option remoteId
                    (map_of (fileMap (upload_iter env_ok (''b.md'', 10) st_new_local)) ''b.md'')
                  = Some (fid f)))"
    using t2[THEN conjunct2, THEN conjunct2, THEN conjunct2, THEN conjunct1] a3 by blast
  have p5: "map_of (fileMap (download_iter env_ok (''c.md'', remote_c) st_new_remote)) ''c.md''
          \<noteq> map_of (fileMap st_new_remote) ''c.md''
      \<and> (\<exists>c. downloadGoogleDriveFile env_ok (fid remote_c) st_new_remote = Some c
         \<and> map_option data
              (map_of (vault (download_iter env_ok (''c.md'', remote_c) st_new_remote)) ''c.md'')
            = Some c)"
    using t4[THEN conjunct2, THEN conjunct2, THEN conjunct2, THEN conjunct2, THEN conjunct1] a4 by blast
  have p6: "map_of (fileMap (local_deletion_step env_ok ''d.md'' st_gone_local)) ''d.md''
          \<noteq> map_of (fileMap st_gone_local) ''d.md''
      \<and> map_of (fileMap (local_deletion_step env_ok ''d.md'' st_gone_local)) ''d.md'' = None
      \<and> (\<exists>m. map_of (fileMap st_gone_local) ''d.md'' = Some m
         \<and> fst (deleteGoogleDriveFile env_ok (remoteId m) st_gone_local)
         \<and> remoteId m \<notin> fid ` set (drive (local_deletion_step env_ok ''d.md'' st_gone_local)))"
    using t5[THEN conjunct2, THEN conjunct2, THEN conjunct2, THEN conjunct2, THEN conjunct2, THEN conjunct1] a5 by blast
  from t6[THEN conjunct2, THEN conjunct2, THEN conjunct2, THEN conjunct2, THEN conjunct2, THEN conjunct2] a6
  have "map_of (fileMap (remote_deletion_step env_ok ''d.md'' st_gone_remote)) ''d.md'' = None
       \<and> (if map_of (vault st_gone_remote) ''d.md'' = None
           then vault (remote_deletion_step env_ok ''d.md'' st_gone_remote) = vault st_gone_remote
                \<and> drive (remote_deletion_step env_ok ''d.md'' st_gone_remote) = drive st_gone_remote
           else delete_throws env_ok ''d.md'' = False
                \<and> map_of (vault (remote_deletion_step env_ok ''d.md'' st_gone_remote)) ''d.md'' = None)"
    by blast
  with a6 b6
  have p7: "map_of (fileMap (remote_deletion_step env_ok ''d.md'' st_gone_remote)) ''d.md''
          \<noteq> map_of (fileMap st_gone_remote) ''d.md''
      \<and> map_of (vault st_gone_remote) ''d.md'' \<noteq> None
      \<and> map_of (fileMap (remote_deletion_step env_ok ''d.md'' st_gone_remote)) ''d.md'' = None
      \<and> delete_throws env_ok ''d.md'' = False
      \<and> map_of (vault (remote_deletion_step env_ok ''d.md'' st_gone_remote)) ''d.md'' = None"
    by simp
  from t7[THEN conjunct2, THEN conjunct2, THEN conjunct2, THEN conjunct2, THEN conjunct2, THEN conjunct2] a7
  have "map_of (fileMap (remote_deletion_step env_ok ''d.md'' st_gone_both)) ''d.md'' = None
       \<and> (if map_of (vault st_gone_both) ''d.md'' = None
           then vault (remote_deletion_step env_ok ''d.md'' st_gone_both) = vault st_gone_both
                \<and> drive (remote_deletion_step env_ok ''d.md'' st_gone_both) = drive st_gone_both
           else delete_throws env_ok ''d.md'' = False
                \<and> map_of (vault (remote_deletion_step env_ok ''d.md'' st_gone_both)) ''d.md'' = None)"
    by blast
  with a7 b7
  have p8: "map_of (fileMap (remote_deletion_step env_ok ''d.md'' st_gone_both)) ''d.md''
          \<noteq> map_of (fileMap st_gone_both) ''d.md''
      \<and> map_of (vault st_gone_both) ''d.md'' = None
      \<and> map_of (fileMap (remote_deletion_step env_ok ''d.md'' st_gone_both)) ''d.md'' = None
      \<and> vault (remote_deletion_step env_ok ''d.md'' st_gone_both) = vault st_gone_both
      \<and> drive (remote_deletion_step env_ok ''d.md'' st_gone_both) = drive st_gone_both"
    by simp
  show ?thesis
    by (rule conjI[OF p1], rule conjI[OF p2], rule conjI[OF p3], rule conjI[OF p4],
        rule conjI[OF p5], rule conjI[OF p6], rule conjI[OF p7], rule p8)
qed

section \<open>C5: deletion propagation\<close>

lemma local_deletion_step_frame:
  "localFiles (local_deletion_step e q s) = localFiles s
   \<and> remoteFilesMap (local_deletion_step e q s) = remoteFilesMap s
   \<and> vault (local_deletion_step e q s) = vault s
   \<and> saved (local_deletion_step e q s) = saved s
   \<and> fid ` set (drive (local_deletion_step e q s)) \<subseteq> fid ` set (drive s)"
  by (auto simp: local_deletion_step_def deleteGoogleDriveFile_def split: option.splits if_splits)

lemma local_deletion_step_other:
  "q \<noteq> p \<Longrightarrow> map_of (fileMap (local_deletion_step e q s)) p = map_of (fileMap s) p"
  by (auto simp: local_deletion_step_def deleteGoogleDriveFile_def delete_conv'
        split: option.splits if_splits)

lemma local_deletion_step_present:
  "map_of (localFiles s) p \<noteq> None \<Longrightarrow>
     map_of (fileMap (local_deletion_step e q s)) p = map_of (fileMap s) p"
  by (cases "q = p")
     (auto simp: local_deletion_step_other, auto simp: local_deletion_step_def split: option.splits)

lemma local_step_removed:
  "map_of (fileMap s) p = None \<and> r \<notin> fid ` set (drive s) \<Longrightarrow>
     map_of (fileMap (local_deletion_step e q s)) p = None
     \<and> r \<notin> fid ` set (drive (local_deletion_step e q s))"
  by (auto simp: local_deletion_step_def deleteGoogleDriveFile_def delete_conv'
        split: option.splits if_splits)

lemma local_step_failed:
  "map_of (fileMap s) p = Some m
     \<and> (remote_delete_fails e (remoteId m) \<or> remoteId m \<notin> fid ` set (drive s)) \<Longrightarrow>
   map_of (fileMap (local_deletion_step e q s)) p = Some m
     \<and> (remote_delete_fails e (remoteId m)
        \<or> remoteId m \<notin> fid ` set (drive (local_deletion_step e q s)))"
  by (auto simp: local_deletion_step_def deleteGoogleDriveFile_def delete_conv'
        split: option.splits if_splits)

lemma local_fold_frame:
  "localFiles (foldl (\<lambda>s q. local_deletion_step e q s) s ks) = localFiles s
   \<and> remoteFilesMap (foldl (\<lambda>s q. local_deletion_step e q s) s ks) = remoteFilesMap s
   \<and> vault (foldl (\<lambda>s q. local_deletion_step e q s) s ks) = vault s
   \<and> saved (foldl (\<lambda>s q. local_deletion_step e q s) s ks) = saved s"
  by (induction ks arbitrary: s) (simp_all add: local_deletion_step_frame)

lemma local_fold_present:
  "map_of (localFiles s) p \<noteq> None \<Longrightarrow>
     map_of (fileMap (foldl (\<lambda>s q. local_deletion_step e q s) s ks)) p = map_of (fileMap s) p"
proof (induction ks arbitrary: s)
  case Nil
  show ?case by simp
next
  case (Cons k ks)
  from Cons.prems have "map_of (localFiles (local_deletion_step e k s)) p \<noteq> None"
    by (simp add: local_deletion_step_frame)
  from Cons.IH[OF this] Cons.prems show ?case
    by (simp add: local_deletion_step_present)
qed

lemma local_fold_untouched:
  "p \<notin> set ks \<Longrightarrow>
     map_of (fileMap (foldl (\<lambda>s q. local_deletion_step e q s) s ks)) p = map_of (fileMap s) p"
  by (induction ks arbitrary: s) (auto simp: local_deletion_step_other)

lemma local_fold_removed:
  "map_of (fileMap s) p = None \<and> r \<notin> fid ` set (drive s) \<Longrightarrow>
     map_of (fileMap (foldl (\<lambda>s q. local_deletion_step e q s) s ks)) p = None
     \<and> r \<notin> fid ` set (drive (foldl (\<lambda>s q. local_deletion_step e q s) s ks))"
proof (induction ks arbitrary: s)
  case Nil
  then show ?case by simp
next
  case (Cons k ks)
  from Cons.IH[OF local_step_removed[OF Cons.prems, of e k]] show ?case by simp
qed

lemma local_fold_failed:
  "map_of (fileMap s) p = Some m
     \<and> (remote_delete_fails e (remoteId m) \<or> remoteId m \<notin> fid ` set (drive s)) \<Longrightarrow>
   map_of (fileMap (foldl (\<lambda>s q. local_deletion_step e q s) s ks)) p = Some m
     \<and> (remote_delete_fails e (remoteId m)
        \<or> remoteId m \<notin> fid ` set (drive (foldl (\<lambda>s q. local_deletion_step e q s) s ks)))"
proof (induction ks arbitrary: s)
  case Nil
  then show ?case by simp
next
  case (Cons k ks)
  from Cons.IH[OF local_step_failed[OF Cons.prems, of k]] show ?case by simp
qed

lemma map_of_Some_key: "map_of xs p = Some m \<Longrightarrow> p \<in> set (map fst xs)"
  by (simp add: map_of_Some_dom)

lemma keys_split_at:
  "p \<in> set ks \<Longrightarrow> ks = takeWhile (\<lambda>q. q \<noteq> p) ks @ p # tl (dropWhile (\<lambda>q. q \<noteq> p) ks)"
  by (induction ks) auto

lemma local_deletions_absent:
  assumes m: "map_of (fileMap st) p = Some m" and l: "map_of (localFiles st) p = None"
  shows "if fst (deleteGoogleDriveFile e (remoteId m) (local_deletions_before e p st))
         then map_of (fileMap (local_deletions e st)) p = None
              \<and> remoteId m \<notin> fid ` set (drive (local_deletions e st))
         else map_of (fileMap (local_deletions e st)) p = Some m
              \<and> (remote_delete_fails e (remoteId m)
                 \<or> remoteId m \<notin> fid ` set (drive (local_deletions e st)))"
proof -
  let ?step = "\<lambda>s q. local_deletion_step e q s"
  let ?ks = "map fst (fileMap st)"
  let ?pre = "takeWhile (\<lambda>q. q \<noteq> p) ?ks" and ?post = "tl (dropWhile (\<lambda>q. q \<noteq> p) ?ks)"
  let ?s = "local_deletions_before e p st"
  from m have "p \<in> set ?ks" by (rule map_of_Some_key)
  then have "?ks = ?pre @ p # ?post" by (rule keys_split_at)
  then have "local_deletions e st = foldl ?step st (?pre @ p # ?post)"
    by (simp add: local_deletions_def)
  then have run: "local_deletions e st = foldl ?step (local_deletion_step e p ?s) ?post"
    by (simp add: local_deletions_before_def)
  have "p \<notin> set ?pre" by (auto dest: set_takeWhileD)
  then have sm: "map_of (fileMap ?s) p = Some m"
    using m by (simp add: local_deletions_before_def local_fold_untouched)
  have sl: "map_of (localFiles ?s) p = None"
    using l by (simp add: local_deletions_before_def local_fold_frame)
  show ?thesis
  proof (cases "fst (deleteGoogleDriveFile e (remoteId m) ?s)")
    case True
    with sm sl have "map_of (fileMap (local_deletion_step e p ?s)) p = None
        \<and> remoteId m \<notin> fid ` set (drive (local_deletion_step e p ?s))"
      by (auto simp: local_deletion_step_def deleteGoogleDriveFile_def delete_conv'
            split: if_splits)
    from local_fold_removed[OF this, of e ?post] True run show ?thesis by simp
  next
    case False
    with sm sl have "map_of (fileMap (local_deletion_step e p ?s)) p = Some m
        \<and> (remote_delete_fails e (remoteId m)
           \<or> remoteId m \<notin> fid ` set (drive (local_deletion_step e p ?s)))"
      by (auto simp: local_deletion_step_def deleteGoogleDriveFile_def split: if_splits)
    from local_fold_failed[OF this, of ?post] False run show ?thesis by simp
  qed
qed

lemma remote_deletion_step_frame:
  "localFiles (remote_deletion_step e q s) = localFiles s
   \<and> remoteFilesMap (remote_deletion_step e q s) = remoteFilesMap s
   \<and> drive (remote_deletion_step e q s) = drive s
   \<and> saved (remote_deletion_step e q s) = saved s"
  by (auto simp: remote_deletion_step_def vault_delete_def split: option.splits if_splits)

lemma remote_deletion_step_other:
  "q \<noteq> p \<Longrightarrow> map_of (fileMap (remote_deletion_step e q s)) p = map_of (fileMap s) p
     \<and> map_of (vault (remote_deletion_step e q s)) p = map_of (vault s) p"
  by (auto simp: remote_deletion_step_def vault_delete_def delete_conv'
        split: option.splits if_splits)

lemma remote_deletion_step_present:
  "map_of (remoteFilesMap s) p \<noteq> None \<Longrightarrow>
     map_of (fileMap (remote_deletion_step e q s)) p = map_of (fileMap s) p
     \<and> map_of (vault (remote_deletion_step e q s)) p = map_of (vault s) p"
  by (cases "q = p")
     (auto simp: remote_deletion_step_other, auto simp: remote_deletion_step_def split: option.splits)

lemma remote_deletion_step_own:
  "map_of (remoteFilesMap s) p = None \<Longrightarrow>
     (map_of (fileMap (remote_deletion_step e p s)) p, map_of (vault (remote_deletion_step e p s)) p)
       = after_remote_check e p s"
  by (auto simp: remote_deletion_step_def after_remote_check_def vault_delete_def delete_conv'
        split: option.splits if_splits)

lemma after_remote_check_idem:
  "(map_of (fileMap s') p, map_of (vault s') p) = after_remote_check e p s \<Longrightarrow>
     after_remote_check e p s' = after_remote_check e p s"
  by (auto simp: after_remote_check_def split: option.splits if_splits)

lemma remote_fold_frame:
  "localFiles (foldl (\<lambda>s q. remote_deletion_step e q s) s ks) = localFiles s
   \<and> remoteFilesMap (foldl (\<lambda>s q. remote_deletion_step e q s) s ks) = remoteFilesMap s
   \<and> drive (foldl (\<lambda>s q. remote_deletion_step e q s) s ks) = drive s
   \<and> saved (foldl (\<lambda>s q. remote_deletion_step e q s) s ks) = saved s"
  by (induction ks arbitrary: s) (simp_all add: remote_deletion_step_frame)

lemma remote_fold_present:
  "map_of (remoteFilesMap s) p \<noteq> None \<Longrightarrow>
     map_of (fileMap (foldl (\<lambda>s q. remote_deletion_step e q s) s ks)) p = map_of (fileMap s) p
     \<and> map_of (vault (foldl (\<lambda>s q. remote_deletion_step e q s) s ks)) p = map_of (vault s) p"
proof (induction ks arbitrary: s)
  case Nil
  show ?case by simp
next
  case (Cons k ks)
  from Cons.prems have "map_of (remoteFilesMap (remote_deletion_step e k s)) p \<noteq> None"
    by (simp add: remote_deletion_step_frame)
  from Cons.IH[OF this] Cons.prems show ?case
    by (simp add: remote_deletion_step_present)
qed

lemma remote_fold_absent:
  "map_of (remoteFilesMap s) p = None \<Longrightarrow>
     (map_of (fileMap (foldl (\<lambda>s q. remote_deletion_step e q s) s ks)) p,
      map_of (vault (foldl (\<lambda>s q. remote_deletion_step e q s) s ks)) p)
       = (if p \<in> set ks then after_remote_check e p s
          else (map_of (fileMap s) p, map_of (vault s) p))"
proof (induction ks arbitrary: s)
  case Nil
  show ?case by simp
next
  case (Cons k ks)
  let ?s = "remote_deletion_step e k s"
  from Cons.prems have r: "map_of (remoteFilesMap ?s) p = None"
    by (simp add: remote_deletion_step_frame)
  note ih = Cons.IH[OF r]
  show ?case
  proof (cases "k = p")
    case True
    from remote_deletion_step_own[OF Cons.prems, of e]
    have own: "(map_of (fileMap ?s) p, map_of (vault ?s) p) = after_remote_check e p s"
      using True by simp
    from after_remote_check_idem[OF own] have "after_remote_check e p ?s = after_remote_check e p s" .
    with ih own True show ?thesis by simp
  next
    case False
    then have o: "map_of (fileMap ?s) p = map_of (fileMap s) p"
        "map_of (vault ?s) p = map_of (vault s) p"
      by (simp_all add: remote_deletion_step_other)
    then have "after_remote_check e p ?s = after_remote_check e p s"
      by (simp only: after_remote_check_def)
    with ih o False show ?thesis by simp
  qed
qed

lemma remote_deletions_absent:
  assumes "map_of (remoteFilesMap st) p = None"
  shows "(map_of (fileMap (remote_deletions e st)) p, map_of (vault (remote_deletions e st)) p)
       = after_remote_check e p st"
proof (cases "map_of (fileMap st) p")
  case None
  then have "p \<notin> set (map fst (fileMap st))"
    by (simp add: map_of_eq_None_iff)
  with remote_fold_absent[OF assms, of e "map fst (fileMap st)"] None show ?thesis
    by (simp add: remote_deletions_def after_remote_check_def)
next
  case (Some m)
  then have "p \<in> set (map fst (fileMap st))" by (rule map_of_Some_key)
  with remote_fold_absent[OF assms, of e "map fst (fileMap st)"] show ?thesis
    by (simp add: remote_deletions_def)
qed

text \<open>
  C5. The run makes the local-deletions pass, then the remote-deletions pass. For a path
  \<open>p\<close> with entry \<open>m\<close>:
  \<^item> local-deletions pass, \<open>p\<close> absent from the local snapshot: when the remote delete made
    at the turn of \<open>p\<close> succeeds, the entry is removed and the remote object is gone after
    the pass; when it fails, the entry is kept as it was (the request failed, or Drive
    holds no object of that id); a path that is in the local snapshot keeps its entry;
  \<^item> remote-deletions pass, \<open>p\<close> absent from the remote snapshot: the local file is deleted
    if there is one and the entry is removed, unless the local delete throws, in which
    case entry and file stay; a path that is in the remote snapshot keeps entry and file;
  \<^item> a path absent from both snapshots and from the vault has no entry after the two
    passes.
\<close>

theorem C5_deletion_propagation:
  assumes "map_of (fileMap st) p = Some m"
  shows "reconcile e st0 =
       remote_deletions e
         (saveSettings (local_deletions e (download_pass e (upload_pass e (snapshot e st0)))))
   \<and> (map_of (localFiles st) p = None \<longrightarrow>
       (if fst (deleteGoogleDriveFile e (remoteId m) (local_deletions_before e p st))
        then map_of (fileMap (local_deletions e st)) p = None
             \<and> remoteId m \<notin> fid ` set (drive (local_deletions e st))
        else map_of (fileMap (local_deletions e st)) p = Some m
             \<and> (remote_delete_fails e (remoteId m)
                \<or> remoteId m \<notin> fid ` set (drive (local_deletions e st)))))
   \<and> (map_of (localFiles st) p \<noteq> None \<longrightarrow> map_of (fileMap (local_deletions e st)) p = Some m)
   \<and> (map_of (remoteFilesMap st) p = None \<longrightarrow>
       map_of (fileMap (remote_deletions e st)) p
         = (if map_of (vault st) p \<noteq> None \<and> delete_throws e p then Some m else None)
       \<and> map_of (vault (remote_deletions e st)) p
         = (if delete_throws e p then map_of (vault st) p else None))
   \<and> (map_of (remoteFilesMap st) p \<noteq> None \<longrightarrow>
       map_of (fileMap (remote_deletions e st)) p = Some m
       \<and> map_of (vault (remote_deletions e st)) p = map_of (vault st) p)
   \<and> (map_of (localFiles st) p = None \<and> map_of (remoteFilesMap st) p = None
         \<and> map_of (vault st) p = None \<longrightarrow>
       map_of (fileMap (remote_deletions e (saveSettings (local_deletions e st)))) p = None)"
proof (intro conjI)
  show "reconcile e st0 =
       remote_deletions e
         (saveSettings (local_deletions e (download_pass e (upload_pass e (snapshot e st0)))))"
    by (simp add: reconcile_def)
  show "map_of (localFiles st) p = None \<longrightarrow>
       (if fst (deleteGoogleDriveFile e (remoteId m) (local_deletions_before e p st))
        then map_of (fileMap (local_deletions e st)) p = None
             \<and> remoteId m \<notin> fid ` set (drive (local_deletions e st))
        else map_of (fileMap (local_deletions e st)) p = Some m
             \<and> (remote_delete_fails e (remoteId m)
                \<or> remoteId m \<notin> fid ` set (drive (local_deletions e st))))"
    using local_deletions_absent[OF assms, of e] by blast
  show "map_of (localFiles st) p \<noteq> None \<longrightarrow> map_of (fileMap (local_deletions e st)) p = Some m"
    using assms by (simp add: local_deletions_def local_fold_present)
  show "map_of (remoteFilesMap st) p = None \<longrightarrow>
       map_of (fileMap (remote_deletions e st)) p
         = (if map_of (vault st) p \<noteq> None \<and> delete_throws e p then Some m else None)
       \<and> map_of (vault (remote_deletions e st)) p
         = (if delete_throws e p then map_of (vault st) p else None)"
    using remote_deletions_absent[of st p e] assms
    by (auto simp: after_remote_check_def split: option.splits if_splits)
  show "map_of (remoteFilesMap st) p \<noteq> None \<longrightarrow>
       map_of (fileMap (remote_deletions e st)) p = Some m
       \<and> map_of (vault (remote_deletions e st)) p = map_of (vault st) p"
    using assms by (simp add: remote_deletions_def remote_fold_present)
  show "map_of (localFiles st) p = None \<and> map_of (remoteFilesMap st) p = None
         \<and> map_of (vault st) p = None \<longrightarrow>
       map_of (fileMap (remote_deletions e (saveSettings (local_deletions e st)))) p = None"
  proof
    assume a: "map_of (localFiles st) p = None \<and> map_of (remoteFilesMap st) p = None
         \<and> map_of (vault st) p = None"
    let ?s = "saveSettings (local_deletions e st)"
    have fr: "remoteFilesMap ?s = remoteFilesMap st" "vault ?s = vault st"
      by (simp_all add: saveSettings_def local_deletions_def local_fold_frame)
    with a have "(map_of (fileMap (remote_deletions e ?s)) p, map_of (vault (remote_deletions e ?s)) p)
       = after_remote_check e p ?s"
      by (intro remote_deletions_absent) simp
    with a fr show "map_of (fileMap (remote_deletions e ?s)) p = None"
      by (auto simp: after_remote_check_def split: option.splits)
  qed
qed

theorem C5_witness:
  "(map_of (fileMap st_gone_local) ''d.md'' = Some entry_d
      \<and> map_of (localFiles st_gone_local) ''d.md'' = None
      \<and> map_of (remoteFilesMap st_gone_local) ''d.md'' \<noteq> None
      \<and> map_of (fileMap (local_deletions env_ok st_gone_local)) ''d.md'' = None
      \<and> remoteId entry_d \<notin> fid ` set (drive (local_deletions env_ok st_gone_local))
      \<and> map_of (fileMap (remote_deletions env_ok st_gone_local)) ''d.md'' = Some entry_d)
   \<and> (map_of (fileMap st_gone_remote) ''d.md'' = Some entry_d
      \<and> map_of (localFiles st_gone_remote) ''d.md'' \<noteq> None
      \<and> map_of (remoteFilesMap st_gone_remote) ''d.md'' = None
      \<and> map_of (fileMap (local_deletions env_ok st_gone_remote)) ''d.md'' = Some entry_d
      \<and> map_of (fileMap (remote_deletions env_ok st_gone_remote)) ''d.md'' = None
      \<and> map_of (vault (remote_deletions env_ok st_gone_remote)) ''d.md'' = None)
   \<and> (map_of (fileMap st_gone_both) ''d.md'' = Some entry_d
      \<and> map_of (localFiles st_gone_both) ''d.md'' = None
      \<and> map_of (remoteFilesMap st_gone_both) ''d.md'' = None
      \<and> map_of (vault st_gone_both) ''d.md'' = None
      \<and> map_of (fileMap (remote_deletions env_ok (saveSettings (local_deletions env_ok st_gone_both))))
           ''d.md'' = None)"
proof -
  have a1: "map_of (fileMap st_gone_local) ''d.md'' = Some entry_d"
    and b1: "map_of (localFiles st_gone_local) ''d.md'' = None"
    and c1: "map_of (remoteFilesMap st_gone_local) ''d.md'' \<noteq> None"
    and d1: "fst (deleteGoogleDriveFile env_ok (remoteId entry_d)
                   (local_deletions_before env_ok ''d.md'' st_gone_local))"
    by code_simp+
  have a2: "map_of (fileMap st_gone_remote) ''d.md'' = Some entry_d"
    and b2: "map_of (localFiles st_gone_remote) ''d.md'' \<noteq> None"
    and c2: "map_of (remoteFilesMap st_gone_remote) ''d.md'' = None"
    and d2: "delete_throws env_ok ''d.md'' = False"
    by code_simp+
  have a3: "map_of (fileMap st_gone_both) ''d.md'' = Some entry_d"
    and b3: "map_of (localFiles st_gone_both) ''d.md'' = None"
    and c3: "map_of (remoteFilesMap st_gone_both) ''d.md'' = None"
    and d3: "map_of (vault st_gone_both) ''d.md'' = None"
    by code_simp+
  note t1 = C5_deletion_propagation[OF a1, of env_ok st_gone_local]
  note t2 = C5_deletion_propagation[OF a2, of env_ok st_gone_remote]
  note t3 = C5_deletion_propagation[OF a3, of env_ok st_gone_both]
  from t1 b1 d1 have p1: "map_of (fileMap (local_deletions env_ok st_gone_local)) ''d.md'' = None
      \<and> remoteId entry_d \<notin> fid ` set (drive (local_deletions env_ok st_gone_local))"
    by simp
  from t1 c1 have q1: "map_of (fileMap (remote_deletions env_ok st_gone_local)) ''d.md'' = Some entry_d"
    by blast
  from t2 b2 have p2: "map_of (fileMap (local_deletions env_ok st_gone_remote)) ''d.md'' = Some entry_d"
    by blast
  from t2 c2 d2 have q2: "map_of (fileMap (remote_deletions env_ok st_gone_remote)) ''d.md'' = None
      \<and> map_of (vault (remote_deletions env_ok st_gone_remote)) ''d.md'' = None"
    by simp
  from t3 b3 c3 d3 have p3:
    "map_of (fileMap (remote_deletions env_ok (saveSettings (local_deletions env_ok st_gone_both))))
           ''d.md'' = None"
    by blast
  from a1 b1 c1 p1 q1 a2 b2 c2 p2 q2 a3 b3 c3 d3 p3 show ?thesis
    by simp
qed

section \<open>C10: only Markdown files outside \<open>.obsidian/\<close> are scanned and uploaded\<close>

lemma endsWith_md_split: "endsWith p ''.md'' \<Longrightarrow> \<exists>q. p = q @ ''.md''"
  unfolding endsWith_def by (metis append_take_drop_id)

lemma endsWith_append: "endsWith (xs @ t) t"
  by (simp add: endsWith_def)

lemma lastIndexOf_md: "lastIndexOf (q @ ''.md'') (CHR ''.'') = Some (length q)"
  by (simp add: lastIndexOf_def)

lemma conflictPath_md: "endsWith p ''.md'' \<Longrightarrow> endsWith (conflictPath e p) ''.md''"
proof -
  assume "endsWith p ''.md''"
  then obtain q where p: "p = q @ ''.md''" using endsWith_md_split by blast
  have "conflictPath e p = (q @ ''_local_conflict_'' @ sanitize (iso_now e p)) @ ''.md''"
    by (simp add: p conflictPath_def lastIndexOf_md)
  then show ?thesis by (simp only: endsWith_append)
qed

lemma local_scan_keys:
  "fst ` set (local_scan e st ps acc) \<subseteq>
     fst ` set acc \<union> {p \<in> set ps. \<not> startsWith p ''.obsidian/'' \<and> p \<in> fst ` set (vault st)}"
proof (induction ps arbitrary: acc)
  case Nil
  show ?case by simp
next
  case (Cons p ps)
  show ?case
  proof (cases "startsWith p ''.obsidian/''")
    case True
    with Cons.IH[of acc] show ?thesis by auto
  next
    case False
    show ?thesis
    proof (cases "stat e st p")
      case Threw
      with False Cons.IH[of acc] show ?thesis by auto
    next
      case (Returned r)
      show ?thesis
      proof (cases r)
        case None
        with False Returned Cons.IH[of acc] show ?thesis by auto
      next
        case (Some t)
        with Returned have "p \<in> fst ` set (vault st)"
          by (auto simp: stat_def map_of_Some_dom split: if_splits)
        with False Returned Some Cons.IH[of "AList.update p t acc"] show ?thesis
          by (auto simp: dom_update)
      qed
    qed
  qed
qed

lemma snapshot_keys:
  "k \<in> fst ` set (localFiles (snapshot e st)) \<Longrightarrow>
     endsWith k ''.md'' \<and> \<not> startsWith k ''.obsidian/'' \<and> k \<in> fst ` set (vault st)"
  using local_scan_keys[of e st "getMarkdownFiles st" "[]"]
  by (auto simp: snapshot_def getMarkdownFiles_def)

lemma backup_local_keys:
  "k \<in> fst ` set (localFiles (backup_local e p s)) \<Longrightarrow>
     k \<in> fst ` set (localFiles s) \<or> k = conflictPath e p"
proof -
  assume k: "k \<in> fst ` set (localFiles (backup_local e p s))"
  from backup_local_localFiles[of e p s]
  have "fst ` set (localFiles (backup_local e p s)) \<subseteq> insert (conflictPath e p) (fst ` set (localFiles s))"
  proof
    assume "localFiles (backup_local e p s) = localFiles s"
    then show ?thesis by auto
  next
    assume "\<exists>m. localFiles (backup_local e p s) = AList.update (conflictPath e p) m (localFiles s)"
    then obtain m where "localFiles (backup_local e p s) = AList.update (conflictPath e p) m (localFiles s)"
      by blast
    then show ?thesis by (simp add: dom_update)
  qed
  with k show ?thesis by blast
qed

lemma upload_iter_keys:
  assumes "k \<in> fst ` set (localFiles (upload_iter e kv s))"
  shows "k \<in> fst ` set (localFiles s) \<or> k = conflictPath e (fst kv)"
proof (cases "upload_case_of (map_of (fileMap s) (fst kv)) (snd kv) (map_of (remoteFilesMap s) (fst kv)) = Conflict")
  case True
  then have "upload_iter e kv s = backup_local e (fst kv) s"
    by (simp add: upload_iter_def)
  with assms backup_local_keys show ?thesis by simp
next
  case False
  then have "localFiles (upload_iter e kv s) = localFiles s"
    by (simp add: upload_iter_def Let_def do_upload_frame)
  with assms show ?thesis by simp
qed

lemma uploadGoogleDriveFile_names:
  assumes "uploadGoogleDriveFile e p c mt ex s = (r, s1)" and "f \<in> set (drive s1)" and "name f \<noteq> p"
  shows "f \<in> set (drive s)"
  using assms by (auto simp: uploadGoogleDriveFile_def split: if_splits option.splits)

lemma do_upload_names:
  assumes "f \<in> set (drive (do_upload e p t opn m s))" and "name f \<noteq> p"
  shows "f \<in> set (drive s)"
proof (cases "readBinary e s p")
  case Threw
  with assms show ?thesis by (simp add: do_upload_def)
next
  case (Returned c)
  obtain r s1 where u: "uploadGoogleDriveFile e p c
      (if endsWith p ''.md'' then ''text/markdown'' else ''application/octet-stream'')
      (existingRemoteFileId opn m) s = (r, s1)"
    by (cases "uploadGoogleDriveFile e p c
      (if endsWith p ''.md'' then ''text/markdown'' else ''application/octet-stream'')
      (existingRemoteFileId opn m) s")
  from assms Returned u have "f \<in> set (drive s1)"
    by (auto simp: do_upload_def record_upload_fileMap split: option.splits if_splits)
  from uploadGoogleDriveFile_names[OF u this assms(2)] show ?thesis .
qed

lemma upload_iter_names:
  assumes "f \<in> set (drive (upload_iter e (p, t) s))" and "name f \<noteq> p"
  shows "f \<in> set (drive s)"
proof (cases "upload_case_of (map_of (fileMap s) p) t (map_of (remoteFilesMap s) p) = Conflict")
  case True
  then have "upload_iter e (p, t) s = backup_local e p s"
    by (simp add: upload_iter_def)
  with assms backup_local_frame[of e p s] show ?thesis by simp
next
  case False
  with assms do_upload_names show ?thesis
    by (auto simp: upload_iter_def Let_def split: if_splits)
qed

lemma pending_member: "pending visited s = kv # rest \<Longrightarrow> kv \<in> set (localFiles s)"
  unfolding pending_def by (metis filter_eq_ConsD in_set_conv_decomp)

lemma upload_loop_other_paths:
  assumes "\<And>k. k \<in> fst ` set (localFiles st) \<Longrightarrow> endsWith k ''.md''"
    and "\<not> endsWith q ''.md''"
  shows "map_of (fileMap (upload_loop e visited st)) q = map_of (fileMap st) q
     \<and> (\<forall>f\<in>set (drive (upload_loop e visited st)). name f = q \<longrightarrow> f \<in> set (drive st))"
  using assms
proof (induction e visited st rule: upload_loop.induct)
  case (1 e visited st)
  show ?case
  proof (cases "pending visited st")
    case Nil
    then have "upload_loop e visited st = st"
      by (subst upload_loop.simps) simp
    then show ?thesis by simp
  next
    case (Cons kv rest)
    let ?s = "upload_iter e kv st"
    from Cons have mem: "kv \<in> set (localFiles st)" by (rule pending_member)
    then have md: "endsWith (fst kv) ''.md''" using "1.prems"(1) by force
    with "1.prems"(2) have ne: "fst kv \<noteq> q" by auto
    have inv: "endsWith k ''.md''" if "k \<in> fst ` set (localFiles ?s)" for k
      using upload_iter_keys[OF that] "1.prems"(1) md conflictPath_md by auto
    from "1.IH"[OF Cons inv "1.prems"(2)]
    have ih: "map_of (fileMap (upload_loop e (fst kv # visited) ?s)) q = map_of (fileMap ?s) q"
      "\<forall>f\<in>set (drive (upload_loop e (fst kv # visited) ?s)). name f = q \<longrightarrow> f \<in> set (drive ?s)"
      by simp_all
    have fm: "map_of (fileMap ?s) q = map_of (fileMap st) q"
      using upload_iter_changes[of e "fst kv" "snd kv" st q] ne by auto
    have dr: "f \<in> set (drive st)" if "f \<in> set (drive ?s)" "name f = q" for f
      using upload_iter_names[of f e "fst kv" "snd kv" st] that ne by auto
    have eq: "upload_loop e visited st = upload_loop e (fst kv # visited) ?s"
      using Cons by (subst upload_loop.simps) simp
    from ih fm dr show ?thesis unfolding eq by auto
  qed
qed

text \<open>
  C10. Every path of the local snapshot is a vault file that ends in \<open>.md\<close> and does not
  begin with \<open>.obsidian/\<close>. For a path \<open>q\<close> that does not end in \<open>.md\<close>, the upload pass
  of a run leaves the file-map entry of \<open>q\<close> as it was and uploads nothing under the
  name \<open>q\<close>: every Drive object named \<open>q\<close> after the pass was there before it.
\<close>

theorem C10_only_markdown_is_scanned_and_uploaded:
  "(\<forall>k\<in>fst ` set (localFiles (snapshot e st)).
       endsWith k ''.md'' \<and> \<not> startsWith k ''.obsidian/'' \<and> k \<in> fst ` set (vault st))
   \<and> (\<not> endsWith q ''.md'' \<longrightarrow>
        map_of (fileMap (upload_pass e (snapshot e st))) q = map_of (fileMap st) q
        \<and> (\<forall>f\<in>set (drive (upload_pass e (snapshot e st))). name f = q \<longrightarrow> f \<in> set (drive st)))"
proof (intro conjI impI ballI)
  fix k
  assume "k \<in> fst ` set (localFiles (snapshot e st))"
  from snapshot_keys[OF this]
  show "endsWith k ''.md''" "\<not> startsWith k ''.obsidian/''" "k \<in> fst ` set (vault st)"
    by simp_all
next
  assume q: "\<not> endsWith q ''.md''"
  have inv: "endsWith k ''.md''" if "k \<in> fst ` set (localFiles (snapshot e st))" for k
    using snapshot_keys[OF that] by simp
  note l = upload_loop_other_paths[of "snapshot e st" q e "[]", OF inv q]
  from l show "map_of (fileMap (upload_pass e (snapshot e st))) q = map_of (fileMap st) q"
    by (simp add: upload_pass_def saveSettings_def snapshot_def)
  fix f
  assume "f \<in> set (drive (upload_pass e (snapshot e st)))" "name f = q"
  with l show "f \<in> set (drive st)"
    by (simp add: upload_pass_def saveSettings_def snapshot_def)
qed

theorem C10_witness:
  "localFiles (snapshot env_ok st_mixed) = [(''a.md'', 10)]
   \<and> ''a.md'' \<in> fst ` set (localFiles (snapshot env_ok st_mixed))
   \<and> endsWith ''a.md'' ''.md''
   \<and> ''a.md'' \<in> fst ` set (vault st_mixed)
   \<and> endsWith ''x.txt'' ''.md'' = False
   \<and> map_of (fileMap (upload_pass env_ok (snapshot env_ok st_mixed))) ''x.txt''
        = map_of (fileMap st_mixed) ''x.txt''
   \<and> (\<exists>f\<in>set (drive (upload_pass env_ok (snapshot env_ok st_mixed))). name f = ''x.txt'') = False"
proof -
  have a1: "localFiles (snapshot env_ok st_mixed) = [(''a.md'', 10)]"
    by code_simp
  then have a2: "''a.md'' \<in> fst ` set (localFiles (snapshot env_ok st_mixed))"
    by simp
  have a3: "endsWith ''x.txt'' ''.md'' = False"
    by code_simp
  have a4: "drive st_mixed = []"
    by code_simp
  note t = C10_only_markdown_is_scanned_and_uploaded[of env_ok st_mixed "''x.txt''"]
  from t a2 have c1: "endsWith ''a.md'' ''.md''" "''a.md'' \<in> fst ` set (vault st_mixed)"
    by blast+
  from t a3 have c2: "map_of (fileMap (upload_pass env_ok (snapshot env_ok st_mixed))) ''x.txt''
        = map_of (fileMap st_mixed) ''x.txt''"
    by blast
  from t a3 a4
  have c3: "(\<exists>f\<in>set (drive (upload_pass env_ok (snapshot env_ok st_mixed))). name f = ''x.txt'') = False"
    by auto
  from a1 a2 a3 c1 c2 c3 show ?thesis by blast
qed

section \<open>C6: equal timestamps\<close>

text \<open>
  C6, as stated, fails: with local mtime and recorded \<open>localMtimeEpoch\<close> both 0 and remote
  time and recorded \<open>remoteMtime\<close> both -1, the run uploads the local file over the remote
  object (the test \<open>!existingMapping.localMtimeEpoch\<close> of line 279 is true for 0, and
  \<open>0 > -1\<close> then selects the update upload).
\<close>

theorem C6_counterexample:
  "map_option mtime (map_of (vault st_tie) ''a.md'') = Some 0
   \<and> map_option localMtimeEpoch (map_of (fileMap st_tie) ''a.md'') = Some (Some 0)
   \<and> map modifiedTime (drive st_tie) = [-1]
   \<and> map_option remoteMtime (map_of (fileMap st_tie) ''a.md'') = Some (Some (-1))
   \<and> map body (drive st_tie) = [''R'']
   \<and> drive (syncNow env_ok st_tie) =
       [\<lparr>fid = ''r1'', name = ''a.md'', mimeType = ''text/markdown'', modifiedTime = 5000,
         md5Checksum = Some ''L'', body = ''L''\<rparr>]"
  by code_simp

lemma tie_steps_identity:
  assumes "map_of (localFiles st) p = Some t"
    and "map_of (fileMap st) p = Some m"
    and "localMtimeEpoch m = Some t"
    and "map_of (remoteFilesMap st) p = Some f"
    and "remoteMtime m = Some (modifiedTime f)"
    and "t \<noteq> 0 \<or> t \<le> modifiedTime f"
  shows "upload_iter e (p, t) st = st
     \<and> download_iter e (p, f) st = st
     \<and> local_deletion_step e p st = st
     \<and> remote_deletion_step e p st = st"
proof -
  from assms have u: "upload_operation (upload_case_of (Some m) t (Some f)) = skip"
    and nc: "upload_case_of (Some m) t (Some f) \<noteq> Conflict"
    by (auto simp: upload_case_of_def local_changed_def currentRemoteMtimeEpoch_def
          lastKnownRemoteMtimeEpoch_def)
  from assms have d: "download_operation (download_case_of (Some t) (Some m) f) = skip"
    by (simp add: download_case_of_def lastKnownRemoteMtimeEpoch_def)
  from u nc d assms show ?thesis
    by (simp add: upload_iter_def download_iter_def local_deletion_step_def
          remote_deletion_step_def Let_def)
qed

lemma local_scan_distinct:
  "distinct (map fst acc) \<Longrightarrow> distinct (map fst (local_scan e st ps acc))"
  by (induction ps arbitrary: acc)
     (auto simp: distinct_update split: outcome.splits option.splits)

lemma remote_scan_distinct:
  "distinct (map fst acc) \<Longrightarrow> distinct (map fst (remote_scan fs acc))"
  by (induction fs arbitrary: acc) (auto simp: distinct_update)

lemma backup_local_other:
  assumes "map_of (vault s) p \<noteq> None"
  shows "map_of (vault (backup_local e q s)) p = map_of (vault s) p
     \<and> map_of (localFiles (backup_local e q s)) p = map_of (localFiles s) p"
proof (cases "conflictPath e q = p")
  case True
  with assms show ?thesis
    by (auto simp: backup_local_def createBinary_def split: outcome.splits option.splits)
next
  case False
  with assms show ?thesis
    by (auto simp: backup_local_def createBinary_def update_conv' map_add_def
          split: outcome.splits option.splits)
qed

lemma record_upload_other:
  "q \<noteq> p \<Longrightarrow>
     map_of (remoteFilesMap (record_upload e q t r s)) p = map_of (remoteFilesMap s) p"
  by (auto simp: record_upload_def update_conv' split: option.splits)

lemma record_upload_distinct:
  "distinct (map fst (remoteFilesMap s)) \<Longrightarrow>
     distinct (map fst (remoteFilesMap (record_upload e q t r s)))"
  by (auto simp: record_upload_def distinct_update split: option.splits)

lemma do_upload_other:
  assumes "q \<noteq> p"
  shows "map_of (remoteFilesMap (do_upload e q t opn m s)) p = map_of (remoteFilesMap s) p
     \<and> map_of (fileMap (do_upload e q t opn m s)) p = map_of (fileMap s) p
     \<and> vault (do_upload e q t opn m s) = vault s
     \<and> (distinct (map fst (remoteFilesMap s)) \<longrightarrow>
          distinct (map fst (remoteFilesMap (do_upload e q t opn m s))))"
proof (cases "readBinary e s q")
  case Threw
  then show ?thesis by (simp add: do_upload_def)
next
  case (Returned c)
  obtain r s1 where u: "uploadGoogleDriveFile e q c
      (if endsWith q ''.md'' then ''text/markdown'' else ''application/octet-stream'')
      (existingRemoteFileId opn m) s = (r, s1)"
    by (cases "uploadGoogleDriveFile e q c
      (if endsWith q ''.md'' then ''text/markdown'' else ''application/octet-stream'')
      (existingRemoteFileId opn m) s")
  note fr = uploadGoogleDriveFile_frame[OF u]
  from assms have fm: "map_of (fileMap (do_upload e q t opn m s)) p = map_of (fileMap s) p"
    using do_upload_changes[of e q t opn m s p] by auto
  from Returned u fr assms fm show ?thesis
    by (auto simp: do_upload_def record_upload_other record_upload_fileMap record_upload_distinct
          split: option.splits)
qed

lemma upload_iter_other:
  assumes "fst kv \<noteq> p" and "map_of (vault s) p \<noteq> None"
  shows "map_of (localFiles (upload_iter e kv s)) p = map_of (localFiles s) p
     \<and> map_of (fileMap (upload_iter e kv s)) p = map_of (fileMap s) p
     \<and> map_of (remoteFilesMap (upload_iter e kv s)) p = map_of (remoteFilesMap s) p
     \<and> map_of (vault (upload_iter e kv s)) p = map_of (vault s) p
     \<and> (distinct (map fst (remoteFilesMap s)) \<longrightarrow>
          distinct (map fst (remoteFilesMap (upload_iter e kv s))))"
proof (cases "upload_case_of (map_of (fileMap s) (fst kv)) (snd kv) (map_of (remoteFilesMap s) (fst kv)) = Conflict")
  case True
  then have "upload_iter e kv s = backup_local e (fst kv) s"
    by (simp add: upload_iter_def)
  with backup_local_other[OF assms(2), of e "fst kv"] backup_local_frame[of e "fst kv" s]
  show ?thesis by simp
next
  case False
  then have "upload_iter e kv s = s
      \<or> (\<exists>opn. upload_iter e kv s = do_upload e (fst kv) (snd kv) opn (map_of (fileMap s) (fst kv)) s)"
    by (auto simp: upload_iter_def Let_def)
  then show ?thesis
  proof
    assume "upload_iter e kv s = s"
    then show ?thesis by simp
  next
    assume "\<exists>opn. upload_iter e kv s = do_upload e (fst kv) (snd kv) opn (map_of (fileMap s) (fst kv)) s"
    then obtain opn where eq: "upload_iter e kv s
        = do_upload e (fst kv) (snd kv) opn (map_of (fileMap s) (fst kv)) s"
      by blast
    from do_upload_other[OF assms(1), of e "snd kv" opn "map_of (fileMap s) (fst kv)" s]
         do_upload_frame[of e "fst kv" "snd kv" opn "map_of (fileMap s) (fst kv)" s]
    show ?thesis unfolding eq by simp
  qed
qed

lemma upload_iter_distinct:
  "distinct (map fst (localFiles s)) \<Longrightarrow> distinct (map fst (localFiles (upload_iter e kv s)))"
  using upload_iter_cases[of e kv s] by (auto simp: distinct_update)

lemma upload_iter_tied:
  assumes "tied p t m f s" and "localMtimeEpoch m = Some t"
    and "remoteMtime m = Some (modifiedTime f)" and "t \<noteq> 0 \<or> t \<le> modifiedTime f"
    and "kv \<in> set (localFiles s)"
  shows "tied p t m f (upload_iter e kv s)
     \<and> map_of (vault (upload_iter e kv s)) p = map_of (vault s) p"
proof (cases "fst kv = p")
  case True
  from assms(1,5) True have "kv = (p, t)"
    by (cases kv) (auto simp: tied_def)
  moreover from assms have "upload_iter e (p, t) s = s"
    using tie_steps_identity[of s p t m f e] by (simp add: tied_def)
  ultimately show ?thesis using assms(1) by simp
next
  case False
  from assms(1) have v: "map_of (vault s) p \<noteq> None" by (simp add: tied_def)
  from upload_iter_other[OF False v, of e] upload_iter_distinct[of s e kv] assms(1)
  show ?thesis by (simp add: tied_def)
qed

lemma upload_loop_tied:
  assumes "tied p t m f st" and "localMtimeEpoch m = Some t"
    and "remoteMtime m = Some (modifiedTime f)" and "t \<noteq> 0 \<or> t \<le> modifiedTime f"
  shows "tied p t m f (upload_loop e visited st)
     \<and> map_of (vault (upload_loop e visited st)) p = map_of (vault st) p"
  using assms
proof (induction e visited st rule: upload_loop.induct)
  case (1 e visited st)
  show ?case
  proof (cases "pending visited st")
    case Nil
    then have "upload_loop e visited st = st"
      by (subst upload_loop.simps) simp
    with "1.prems" show ?thesis by simp
  next
    case (Cons kv rest)
    let ?s = "upload_iter e kv st"
    from Cons have "kv \<in> set (localFiles st)" by (rule pending_member)
    from upload_iter_tied[OF "1.prems" this, of e]
    have t: "tied p t m f ?s" and v: "map_of (vault ?s) p = map_of (vault st) p"
      by simp_all
    have eq: "upload_loop e visited st = upload_loop e (fst kv # visited) ?s"
      using Cons by (subst upload_loop.simps) simp
    from "1.IH"[OF Cons t "1.prems"(2,3,4)] v show ?thesis
      unfolding eq by simp
  qed
qed

lemma download_iter_other:
  assumes "fst kv \<noteq> p"
  shows "map_of (fileMap (download_iter e kv s)) p = map_of (fileMap s) p
     \<and> map_of (vault (download_iter e kv s)) p = map_of (vault s) p
     \<and> localFiles (download_iter e kv s) = localFiles s
     \<and> remoteFilesMap (download_iter e kv s) = remoteFilesMap s"
proof -
  have w: "map_of (vault s1) p = map_of (vault s) p \<and> localFiles s1 = localFiles s
      \<and> remoteFilesMap s1 = remoteFilesMap s"
    if "write_download e (fst kv) c opn s = Returned s1" for c opn s1
    using that assms
    by (auto simp: write_download_def createBinary_def modifyBinary_def update_conv' map_add_def
          split: if_splits option.splits)
  have fm: "map_of (fileMap (download_iter e kv s)) p = map_of (fileMap s) p"
    using download_iter_changes[of e "fst kv" "snd kv" s p] assms by auto
  have rest: "map_of (vault (download_iter e kv s)) p = map_of (vault s) p
     \<and> localFiles (download_iter e kv s) = localFiles s
     \<and> remoteFilesMap (download_iter e kv s) = remoteFilesMap s"
    using w
    by (auto simp: download_iter_def do_download_def Let_def
          split: option.splits outcome.splits)
  from fm rest show ?thesis by simp
qed

lemma download_fold_tied:
  assumes "tied p t m f s" and "localMtimeEpoch m = Some t"
    and "remoteMtime m = Some (modifiedTime f)"
    and "\<And>kv. kv \<in> set xs \<Longrightarrow> fst kv = p \<Longrightarrow> snd kv = f"
  shows "tied p t m f (foldl (\<lambda>s kv. download_iter e kv s) s xs)
     \<and> map_of (vault (foldl (\<lambda>s kv. download_iter e kv s) s xs)) p = map_of (vault s) p"
  using assms
proof (induction xs arbitrary: s)
  case Nil
  then show ?case by simp
next
  case (Cons kv xs)
  let ?s = "download_iter e kv s"
  have step: "tied p t m f ?s \<and> map_of (vault ?s) p = map_of (vault s) p"
  proof (cases "fst kv = p")
    case True
    with Cons.prems(4)[of kv] have "kv = (p, f)" by (cases kv) auto
    moreover from Cons.prems have "download_operation (download_case_of (Some t) (Some m) f) = skip"
      by (simp add: download_case_of_def lastKnownRemoteMtimeEpoch_def)
    ultimately have "?s = s"
      using Cons.prems(1) by (simp add: download_iter_def tied_def)
    with Cons.prems(1) show ?thesis by simp
  next
    case False
    from download_iter_other[OF False, of e s] Cons.prems(1) show ?thesis
      by (simp add: tied_def)
  qed
  from Cons.IH[of ?s] step Cons.prems show ?case by simp
qed

lemma tied_saveSettings: "tied p t m f (saveSettings s) = tied p t m f s"
  by (simp add: tied_def saveSettings_def)

lemma tied_run:
  assumes "tied p t m f s0" and "localMtimeEpoch m = Some t"
    and "remoteMtime m = Some (modifiedTime f)" and "t \<noteq> 0 \<or> t \<le> modifiedTime f"
  shows "map_of (fileMap (remote_deletions e
            (saveSettings (local_deletions e (download_pass e (upload_pass e s0)))))) p = Some m
     \<and> map_of (vault (remote_deletions e
            (saveSettings (local_deletions e (download_pass e (upload_pass e s0)))))) p
        = map_of (vault s0) p"
proof -
  let ?s1 = "upload_pass e s0"
  let ?s2 = "download_pass e ?s1"
  let ?s3 = "saveSettings (local_deletions e ?s2)"
  from upload_loop_tied[OF assms, of e "[]"]
  have t1: "tied p t m f ?s1" and v1: "map_of (vault ?s1) p = map_of (vault s0) p"
    by (simp_all add: upload_pass_def tied_saveSettings) (simp add: saveSettings_def)
  have one: "snd kv = f" if "kv \<in> set (remoteFilesMap ?s1)" "fst kv = p" for kv
  proof -
    from t1 have "distinct (map fst (remoteFilesMap ?s1))"
      and "map_of (remoteFilesMap ?s1) p = Some f"
      by (simp_all add: tied_def)
    moreover from that have "(p, snd kv) \<in> set (remoteFilesMap ?s1)"
      by (cases kv) auto
    ultimately show ?thesis
      using map_of_is_SomeI[of "remoteFilesMap ?s1" p "snd kv"] by simp
  qed
  from download_fold_tied[OF t1 assms(2,3) one, of "remoteFilesMap ?s1" e]
  have t2: "tied p t m f ?s2" and v2: "map_of (vault ?s2) p = map_of (vault ?s1) p"
    by (simp_all add: download_pass_def download_loop_def tied_saveSettings)
       (simp add: saveSettings_def)
  from t2 have l2: "map_of (localFiles ?s2) p \<noteq> None" and r2: "map_of (remoteFilesMap ?s2) p \<noteq> None"
    and m2: "map_of (fileMap ?s2) p = Some m"
    by (simp_all add: tied_def)
  have m3: "map_of (fileMap ?s3) p = Some m"
    using local_fold_present[OF l2, of e "map fst (fileMap ?s2)"] m2
    by (simp add: saveSettings_def local_deletions_def)
  have v3: "map_of (vault ?s3) p = map_of (vault ?s2) p"
    and r3: "map_of (remoteFilesMap ?s3) p \<noteq> None"
    using r2 by (simp_all add: saveSettings_def local_deletions_def local_fold_frame)
  from remote_fold_present[OF r3, of e "map fst (fileMap ?s3)"] m3 v3 v2 v1
  show ?thesis by (simp add: remote_deletions_def)
qed

lemma tie_run_unchanged:
  assumes "map_of (fileMap st) p = Some m"
    and "map_of (localFiles (snapshot e st)) p = Some t"
    and "localMtimeEpoch m = Some t"
    and "map_of (remoteFilesMap (snapshot e st)) p = Some f"
    and "remoteMtime m = Some (modifiedTime f)"
    and "t \<noteq> 0 \<or> t \<le> modifiedTime f"
  shows "map_of (fileMap (reconcile e st)) p = Some m
     \<and> map_of (vault (reconcile e st)) p = map_of (vault st) p"
proof -
  from assms(2) have "p \<in> fst ` set (localFiles (snapshot e st))"
    by (rule map_of_Some_dom)
  then have "p \<in> fst ` set (vault st)"
    using snapshot_keys by blast
  then have v: "map_of (vault st) p \<noteq> None"
    using map_of_dom[of "vault st" p] by blast
  have d: "distinct (map fst (localFiles (snapshot e st)))"
    "distinct (map fst (remoteFilesMap (snapshot e st)))"
    by (simp_all add: snapshot_def local_scan_distinct remote_scan_distinct)
  from assms(1,2,4) v d have "tied p t m f (snapshot e st)"
    by (simp add: tied_def) (simp add: snapshot_def)
  from tied_run[OF this assms(3,5,6), of e]
  show ?thesis
    by (simp_all add: reconcile_def) (simp add: snapshot_def)
qed

lemma strict_comparisons:
  "(localMtimeEpoch m = Some t \<and> t \<noteq> 0 \<longrightarrow> upload_case_of (Some m) t cur = LocalUnchanged)
   \<and> (modifiedTime f = lastKnownRemoteMtimeEpoch m \<longrightarrow>
        upload_case_of (Some m) u (Some f) \<noteq> Conflict)
   \<and> (u = currentRemoteMtimeEpoch cur \<longrightarrow> upload_case_of (Some m) u cur \<noteq> LocalNewer)
   \<and> (modifiedTime f = lastKnownRemoteMtimeEpoch m \<longrightarrow>
        download_case_of (Some u) (Some m) f = RemoteUnchanged)
   \<and> (modifiedTime f = u \<longrightarrow>
        (download_case_of (Some u) mo f = TimesMatch
         \<or> download_case_of (Some u) mo f = RemoteUnchanged)
        \<and> download_operation (download_case_of (Some u) mo f) = skip)"
  by (auto simp: upload_case_of_def download_case_of_def local_changed_def
        currentRemoteMtimeEpoch_def split: option.splits)

lemma tie_classification:
  assumes "localMtimeEpoch m = Some t" and "remoteMtime m = Some (modifiedTime f)"
  shows "upload_case_of (Some m) t (Some f) \<noteq> Conflict
     \<and> upload_operation (upload_case_of (Some m) t (Some f))
        = (if t = 0 \<and> modifiedTime f < 0 then upload_update else skip)
     \<and> download_operation (download_case_of (Some t) (Some m) f) = skip"
  using assms
  by (auto simp: upload_case_of_def download_case_of_def local_changed_def
        currentRemoteMtimeEpoch_def lastKnownRemoteMtimeEpoch_def)

text \<open>
  C6, amended. Every comparison of two timestamps that selects an action is strict: a
  local mtime equal to a non-zero recorded \<open>localMtimeEpoch\<close> is no local change (line 279),
  a remote time equal to the recorded one is no conflict (line 284) and no download
  (line 384), a local mtime equal to the current remote time is no update upload
  (line 312), and a remote time equal to the local mtime is no download (line 387, the
  branch \<open>Timestamps match\<close>). The one test that is not a strict comparison is the guard
  \<open>!existingMapping.localMtimeEpoch\<close> of line 279, which counts a recorded 0 as a local
  change. So for a path whose local mtime equals the recorded \<open>localMtimeEpoch\<close> and whose
  remote \<open>modifiedTime\<close> equals the recorded \<open>remoteMtime\<close> there is never a conflict nor a
  download, and the upload direction skips unless the recorded local mtime is 0 and the
  remote time is negative. Outside that case a run over a snapshot that lists the path on
  both sides leaves the path's entry and its local file as they are, and each per-path
  step (upload iteration, download iteration, both deletion steps) returns the state
  unchanged.
\<close>

theorem C6_equal_timestamps_take_no_action:
  "(localMtimeEpoch m = Some t \<and> t \<noteq> 0 \<longrightarrow> upload_case_of (Some m) t cur = LocalUnchanged)
   \<and> (modifiedTime f = lastKnownRemoteMtimeEpoch m \<longrightarrow>
        upload_case_of (Some m) u (Some f) \<noteq> Conflict)
   \<and> (u = currentRemoteMtimeEpoch cur \<longrightarrow> upload_case_of (Some m) u cur \<noteq> LocalNewer)
   \<and> (modifiedTime f = lastKnownRemoteMtimeEpoch m \<longrightarrow>
        download_case_of (Some u) (Some m) f = RemoteUnchanged)
   \<and> (modifiedTime f = u \<longrightarrow>
        (download_case_of (Some u) mo f = TimesMatch
         \<or> download_case_of (Some u) mo f = RemoteUnchanged)
        \<and> download_operation (download_case_of (Some u) mo f) = skip)
   \<and> (localMtimeEpoch m = Some t \<and> remoteMtime m = Some (modifiedTime f) \<longrightarrow>
        upload_case_of (Some m) t (Some f) \<noteq> Conflict
        \<and> upload_operation (upload_case_of (Some m) t (Some f))
           = (if t = 0 \<and> modifiedTime f < 0 then upload_update else skip)
        \<and> download_operation (download_case_of (Some t) (Some m) f) = skip)
   \<and> (localMtimeEpoch m = Some t \<and> remoteMtime m = Some (modifiedTime f)
        \<and> (t \<noteq> 0 \<or> t \<le> modifiedTime f)
        \<and> map_of (fileMap s) p = Some m \<and> map_of (localFiles s) p = Some t
        \<and> map_of (remoteFilesMap s) p = Some f \<longrightarrow>
        upload_iter e (p, t) s = s
        \<and> download_iter e (p, f) s = s
        \<and> local_deletion_step e p s = s
        \<and> remote_deletion_step e p s = s)
   \<and> (localMtimeEpoch m = Some t \<and> remoteMtime m = Some (modifiedTime f)
        \<and> (t \<noteq> 0 \<or> t \<le> modifiedTime f)
        \<and> map_of (fileMap st) p = Some m
        \<and> map_of (localFiles (snapshot e st)) p = Some t
        \<and> map_of (remoteFilesMap (snapshot e st)) p = Some f \<longrightarrow>
        map_of (fileMap (reconcile e st)) p = Some m
        \<and> map_of (vault (reconcile e st)) p = map_of (vault st) p)"
proof -
  note c = strict_comparisons[of m t cur f u mo]
  have tie: "localMtimeEpoch m = Some t \<and> remoteMtime m = Some (modifiedTime f) \<longrightarrow>
        upload_case_of (Some m) t (Some f) \<noteq> Conflict
        \<and> upload_operation (upload_case_of (Some m) t (Some f))
           = (if t = 0 \<and> modifiedTime f < 0 then upload_update else skip)
        \<and> download_operation (download_case_of (Some t) (Some m) f) = skip"
    using tie_classification[of m t f] by blast
  have steps: "localMtimeEpoch m = Some t \<and> remoteMtime m = Some (modifiedTime f)
        \<and> (t \<noteq> 0 \<or> t \<le> modifiedTime f)
        \<and> map_of (fileMap s) p = Some m \<and> map_of (localFiles s) p = Some t
        \<and> map_of (remoteFilesMap s) p = Some f \<longrightarrow>
        upload_iter e (p, t) s = s
        \<and> download_iter e (p, f) s = s
        \<and> local_deletion_step e p s = s
        \<and> remote_deletion_step e p s = s"
    using tie_steps_identity[of s p t m f e] by blast
  have run: "localMtimeEpoch m = Some t \<and> remoteMtime m = Some (modifiedTime f)
        \<and> (t \<noteq> 0 \<or> t \<le> modifiedTime f)
        \<and> map_of (fileMap st) p = Some m
        \<and> map_of (localFiles (snapshot e st)) p = Some t
        \<and> map_of (remoteFilesMap (snapshot e st)) p = Some f \<longrightarrow>
        map_of (fileMap (reconcile e st)) p = Some m
        \<and> map_of (vault (reconcile e st)) p = map_of (vault st) p"
    using tie_run_unchanged[of st p m e t f] by blast
  show ?thesis
    by (rule conjI[OF c[THEN conjunct1]],
        rule conjI[OF c[THEN conjunct2, THEN conjunct1]],
        rule conjI[OF c[THEN conjunct2, THEN conjunct2, THEN conjunct1]],
        rule conjI[OF c[THEN conjunct2, THEN conjunct2, THEN conjunct2, THEN conjunct1]],
        rule conjI[OF c[THEN conjunct2, THEN conjunct2, THEN conjunct2, THEN conjunct2]],
        rule conjI[OF tie], rule conjI[OF steps], rule run)
qed

text \<open>A local mtime of 20, the remote time of \<open>remote_a\<close>, is used for the comparisons with
  the remote side.\<close>

theorem C6_witness:
  "(localMtimeEpoch entry_a = Some 10 \<and> (10::int) \<noteq> 0
      \<and> upload_case_of (Some entry_a) 10 (Some remote_a) = LocalUnchanged)
   \<and> (modifiedTime remote_a = lastKnownRemoteMtimeEpoch entry_a
      \<and> local_changed entry_a 20
      \<and> upload_case_of (Some entry_a) 20 (Some remote_a) \<noteq> Conflict)
   \<and> (20 = currentRemoteMtimeEpoch (Some remote_a)
      \<and> upload_case_of (Some entry_a) 20 (Some remote_a) \<noteq> LocalNewer)
   \<and> download_case_of (Some 20) (Some entry_a) remote_a = RemoteUnchanged
   \<and> (modifiedTime remote_a = 20
      \<and> (download_case_of (Some 20) None remote_a = TimesMatch
         \<or> download_case_of (Some 20) None remote_a = RemoteUnchanged)
      \<and> download_operation (download_case_of (Some 20) None remote_a) = skip)
   \<and> (remoteMtime entry_a = Some (modifiedTime remote_a)
      \<and> upload_operation (upload_case_of (Some entry_a) 10 (Some remote_a)) = skip
      \<and> download_operation (download_case_of (Some 10) (Some entry_a) remote_a) = skip)
   \<and> (map_of (fileMap (snapshot env_ok st_tie_ok)) ''a.md'' = Some entry_a
      \<and> map_of (localFiles (snapshot env_ok st_tie_ok)) ''a.md'' = Some 10
      \<and> map_of (remoteFilesMap (snapshot env_ok st_tie_ok)) ''a.md'' = Some remote_a
      \<and> upload_iter env_ok (''a.md'', 10) (snapshot env_ok st_tie_ok) = snapshot env_ok st_tie_ok
      \<and> download_iter env_ok (''a.md'', remote_a) (snapshot env_ok st_tie_ok) = snapshot env_ok st_tie_ok
      \<and> local_deletion_step env_ok ''a.md'' (snapshot env_ok st_tie_ok) = snapshot env_ok st_tie_ok
      \<and> remote_deletion_step env_ok ''a.md'' (snapshot env_ok st_tie_ok) = snapshot env_ok st_tie_ok)
   \<and> (map_of (fileMap st_tie_ok) ''a.md'' = Some entry_a
      \<and> map_of (fileMap (reconcile env_ok st_tie_ok)) ''a.md'' = Some entry_a
      \<and> map_of (vault (reconcile env_ok st_tie_ok)) ''a.md'' = map_of (vault st_tie_ok) ''a.md'')"
proof -
  have a1: "map_of (fileMap st_tie_ok) ''a.md'' = Some entry_a"
    and a2: "map_of (localFiles (snapshot env_ok st_tie_ok)) ''a.md'' = Some 10"
    and a3: "localMtimeEpoch entry_a = Some 10"
    and a4: "map_of (remoteFilesMap (snapshot env_ok st_tie_ok)) ''a.md'' = Some remote_a"
    and a5: "remoteMtime entry_a = Some (modifiedTime remote_a)"
    and a7: "map_of (fileMap (snapshot env_ok st_tie_ok)) ''a.md'' = Some entry_a"
    and b1: "modifiedTime remote_a = lastKnownRemoteMtimeEpoch entry_a"
    and b2: "local_changed entry_a 20"
    and b3: "20 = currentRemoteMtimeEpoch (Some remote_a)"
    and b4: "modifiedTime remote_a = 20"
    by code_simp+
  have a6: "(10::int) \<noteq> 0 \<or> 10 \<le> modifiedTime remote_a" and a8: "(10::int) \<noteq> 0"
    by simp_all
  note t = C6_equal_timestamps_take_no_action
    [of entry_a 10 "Some remote_a" remote_a 20 None "snapshot env_ok st_tie_ok" "''a.md''" env_ok
        st_tie_ok]
  from t[THEN conjunct1] a3 a8
  have p1: "localMtimeEpoch entry_a = Some 10 \<and> (10::int) \<noteq> 0
      \<and> upload_case_of (Some entry_a) 10 (Some remote_a) = LocalUnchanged"
    by blast
  from t[THEN conjunct2, THEN conjunct1] b1 b2
  have p2: "modifiedTime remote_a = lastKnownRemoteMtimeEpoch entry_a
      \<and> local_changed entry_a 20
      \<and> upload_case_of (Some entry_a) 20 (Some remote_a) \<noteq> Conflict"
    by blast
  from t[THEN conjunct2, THEN conjunct2, THEN conjunct1] b3
  have p3: "20 = currentRemoteMtimeEpoch (Some remote_a)
      \<and> upload_case_of (Some entry_a) 20 (Some remote_a) \<noteq> LocalNewer"
    by blast
  from t[THEN conjunct2, THEN conjunct2, THEN conjunct2, THEN conjunct1] b1
  have p4: "download_case_of (Some 20) (Some entry_a) remote_a = RemoteUnchanged"
    by blast
  from t[THEN conjunct2, THEN conjunct2, THEN conjunct2, THEN conjunct2, THEN conjunct1] b4
  have p5: "modifiedTime remote_a = 20
      \<and> (download_case_of (Some 20) None remote_a = TimesMatch
         \<or> download_case_of (Some 20) None remote_a = RemoteUnchanged)
      \<and> download_operation (download_case_of (Some 20) None remote_a) = skip"
    by blast
  from t[THEN conjunct2, THEN conjunct2, THEN conjunct2, THEN conjunct2, THEN conjunct2,
         THEN conjunct1] a3 a5
  have p6: "remoteMtime entry_a = Some (modifiedTime remote_a)
      \<and> upload_operation (upload_case_of (Some entry_a) 10 (Some remote_a)) = skip
      \<and> download_operation (download_case_of (Some 10) (Some entry_a) remote_a) = skip"
    by simp
  from t[THEN conjunct2, THEN conjunct2, THEN conjunct2, THEN conjunct2, THEN conjunct2,
         THEN conjunct2, THEN conjunct1] a3 a5 a6 a7 a2 a4
  have p7: "map_of (fileMap (snapshot env_ok st_tie_ok)) ''a.md'' = Some entry_a
      \<and> map_of (localFiles (snapshot env_ok st_tie_ok)) ''a.md'' = Some 10
      \<and> map_of (remoteFilesMap (snapshot env_ok st_tie_ok)) ''a.md'' = Some remote_a
      \<and> upload_iter env_ok (''a.md'', 10) (snapshot env_ok st_tie_ok) = snapshot env_ok st_tie_ok
      \<and> download_iter env_ok (''a.md'', remote_a) (snapshot env_ok st_tie_ok) = snapshot env_ok st_tie_ok
      \<and> local_deletion_step env_ok ''a.md'' (snapshot env_ok st_tie_ok) = snapshot env_ok st_tie_ok
      \<and> remote_deletion_step env_ok ''a.md'' (snapshot env_ok st_tie_ok) = snapshot env_ok st_tie_ok"
    by blast
  from t[THEN conjunct2, THEN conjunct2, THEN conjunct2, THEN conjunct2, THEN conjunct2,
         THEN conjunct2, THEN conjunct2] a3 a5 a6 a1 a2 a4
  have p8: "map_of (fileMap st_tie_ok) ''a.md'' = Some entry_a
      \<and> map_of (fileMap (reconcile env_ok st_tie_ok)) ''a.md'' = Some entry_a
      \<and> map_of (vault (reconcile env_ok st_tie_ok)) ''a.md'' = map_of (vault st_tie_ok) ''a.md''"
    by blast
  show ?thesis
    by (rule conjI[OF p1], rule conjI[OF p2], rule conjI[OF p3], rule conjI[OF p4],
        rule conjI[OF p5], rule conjI[OF p6], rule conjI[OF p7], rule p8)
qed

section \<open>C4: failed reads during snapshot collection\<close>

lemma local_scan_lookup:
  "map_of (local_scan e st ps acc) q =
     (case (if q \<in> set ps then (if startsWith q ''.obsidian/'' then Threw else stat e st q) else Threw) of
        Returned (Some t) \<Rightarrow> Some t
      | Returned None \<Rightarrow> map_of acc q
      | Threw \<Rightarrow> map_of acc q)"
proof (induction ps arbitrary: acc)
  case Nil
  show ?case by simp
next
  case (Cons p ps)
  show ?case
  proof (cases "q = p")
    case True
    show ?thesis
      unfolding True
      by (simp add: Cons.IH[unfolded True] update_conv' split: option.splits outcome.splits)
  next
    case False
    then show ?thesis
      by (simp add: Cons.IH update_conv' split: option.splits outcome.splits)
  qed
qed

lemma upload_iter_unlisted:
  assumes "unlisted p m s" and "kv \<in> set (localFiles s)"
  shows "unlisted p m (upload_iter e kv s)"
proof -
  from assms(2) have "fst kv \<in> fst ` set (localFiles s)" by simp
  then have "map_of (localFiles s) (fst kv) \<noteq> None"
    using map_of_dom[of "localFiles s" "fst kv"] by blast
  with assms(1) have ne: "fst kv \<noteq> p" by (auto simp: unlisted_def)
  from assms(1) have v: "map_of (vault s) p \<noteq> None" by (simp add: unlisted_def)
  from upload_iter_other[OF ne v, of e] assms(1) show ?thesis
    by (simp add: unlisted_def)
qed

lemma upload_loop_unlisted:
  "unlisted p m st \<Longrightarrow> unlisted p m (upload_loop e visited st)"
proof (induction e visited st rule: upload_loop.induct)
  case (1 e visited st)
  show ?case
  proof (cases "pending visited st")
    case Nil
    then have "upload_loop e visited st = st"
      by (subst upload_loop.simps) simp
    with "1.prems" show ?thesis by simp
  next
    case (Cons kv rest)
    from Cons have "kv \<in> set (localFiles st)" by (rule pending_member)
    from upload_iter_unlisted[OF "1.prems" this, of e]
    have u: "unlisted p m (upload_iter e kv st)" .
    have eq: "upload_loop e visited st = upload_loop e (fst kv # visited) (upload_iter e kv st)"
      using Cons by (subst upload_loop.simps) simp
    from "1.IH"[OF Cons u] show ?thesis unfolding eq .
  qed
qed

lemma download_iter_unlisted:
  assumes "unlisted p m s"
  shows "unlisted p m (download_iter e kv s)"
proof (cases "fst kv = p")
  case True
  from assms have "download_iter e (p, snd kv) s = s"
    by (auto simp: unlisted_def download_iter_def download_case_of_def do_download_def
          write_download_def createBinary_def split: option.splits)
  with True assms show ?thesis by (cases kv) simp
next
  case False
  from download_iter_other[OF False, of e s] assms show ?thesis
    by (simp add: unlisted_def)
qed

lemma download_fold_unlisted:
  "unlisted p m s \<Longrightarrow> unlisted p m (foldl (\<lambda>s kv. download_iter e kv s) s xs)"
  by (induction xs arbitrary: s) (simp_all add: download_iter_unlisted)

lemma unlisted_saveSettings: "unlisted p m (saveSettings s) = unlisted p m s"
  by (simp add: unlisted_def saveSettings_def)

lemma remote_deletions_no_entry:
  assumes "map_of (fileMap s) p = None"
  shows "map_of (fileMap (remote_deletions e s)) p = None"
proof (cases "map_of (remoteFilesMap s) p")
  case None
  from remote_deletions_absent[OF None, of e] assms show ?thesis
    by (simp add: after_remote_check_def)
next
  case (Some f)
  then have "map_of (remoteFilesMap s) p \<noteq> None" by simp
  from remote_fold_present[OF this, of e "map fst (fileMap s)"] assms show ?thesis
    by (simp add: remote_deletions_def)
qed

lemma unlisted_run:
  assumes "stat_throws e p" and "map_of (fileMap st) p = Some m" and "map_of (vault st) p \<noteq> None"
  shows "unlisted p m (download_pass e (upload_pass e (snapshot e st)))"
proof -
  from assms(1) have "map_of (localFiles (snapshot e st)) p = None"
    by (simp add: snapshot_def local_scan_lookup stat_def)
  with assms(2,3) have "unlisted p m (snapshot e st)"
    by (simp add: unlisted_def) (simp add: snapshot_def)
  then have "unlisted p m (upload_pass e (snapshot e st))"
    by (simp add: upload_pass_def unlisted_saveSettings upload_loop_unlisted)
  then show ?thesis
    by (simp add: download_pass_def download_loop_def unlisted_saveSettings download_fold_unlisted)
qed

lemma upload_iter_remote_unlisted:
  assumes "remote_unlisted p t m s" and "local_changed m t = False" and "kv \<in> set (localFiles s)"
  shows "remote_unlisted p t m (upload_iter e kv s)"
proof (cases "fst kv = p")
  case True
  from assms(1,3) True have "kv = (p, t)"
    by (cases kv) (auto simp: remote_unlisted_def)
  moreover from assms(1,2) have "upload_iter e (p, t) s = s"
    by (simp add: remote_unlisted_def upload_iter_def upload_case_of_def)
  ultimately show ?thesis using assms(1) by simp
next
  case False
  from assms(1) have v: "map_of (vault s) p \<noteq> None" by (simp add: remote_unlisted_def)
  from upload_iter_other[OF False v, of e] upload_iter_distinct[of s e kv] assms(1)
  show ?thesis by (simp add: remote_unlisted_def)
qed

lemma upload_loop_remote_unlisted:
  "remote_unlisted p t m st \<Longrightarrow> local_changed m t = False \<Longrightarrow>
     remote_unlisted p t m (upload_loop e visited st)"
proof (induction e visited st rule: upload_loop.induct)
  case (1 e visited st)
  show ?case
  proof (cases "pending visited st")
    case Nil
    then have "upload_loop e visited st = st"
      by (subst upload_loop.simps) simp
    with "1.prems" show ?thesis by simp
  next
    case (Cons kv rest)
    from Cons have "kv \<in> set (localFiles st)" by (rule pending_member)
    from upload_iter_remote_unlisted[OF "1.prems" this, of e]
    have u: "remote_unlisted p t m (upload_iter e kv st)" .
    have eq: "upload_loop e visited st = upload_loop e (fst kv # visited) (upload_iter e kv st)"
      using Cons by (subst upload_loop.simps) simp
    from "1.IH"[OF Cons u "1.prems"(2)] show ?thesis unfolding eq .
  qed
qed

lemma download_fold_remote_unlisted:
  assumes "remote_unlisted p t m s" and "\<And>kv. kv \<in> set xs \<Longrightarrow> fst kv \<noteq> p"
  shows "remote_unlisted p t m (foldl (\<lambda>s kv. download_iter e kv s) s xs)"
  using assms
proof (induction xs arbitrary: s)
  case Nil
  then show ?case by simp
next
  case (Cons kv xs)
  from Cons.prems(2)[of kv] have ne: "fst kv \<noteq> p" by simp
  from download_iter_other[OF ne, of e s] Cons.prems(1)
  have "remote_unlisted p t m (download_iter e kv s)"
    by (simp add: remote_unlisted_def)
  from Cons.IH[OF this] Cons.prems(2) show ?case by simp
qed

lemma remote_unlisted_saveSettings:
  "remote_unlisted p t m (saveSettings s) = remote_unlisted p t m s"
  by (simp add: remote_unlisted_def saveSettings_def)

lemma remote_unlisted_run:
  assumes "list_fails e None" and "map_of (fileMap st) p = Some m"
    and "map_of (localFiles (snapshot e st)) p = Some t" and "local_changed m t = False"
    and "delete_throws e p = False"
  shows "map_of (vault (reconcile e st)) p = None \<and> map_of (fileMap (reconcile e st)) p = None"
proof -
  let ?s0 = "snapshot e st"
  let ?s1 = "upload_pass e ?s0"
  let ?s2 = "download_pass e ?s1"
  let ?s3 = "saveSettings (local_deletions e ?s2)"
  from assms(3) have "p \<in> fst ` set (localFiles ?s0)" by (rule map_of_Some_dom)
  then have "p \<in> fst ` set (vault st)" using snapshot_keys by blast
  then have v: "map_of (vault st) p \<noteq> None"
    using map_of_dom[of "vault st" p] by blast
  from assms(1) have r: "remoteFilesMap ?s0 = []"
    by (simp add: snapshot_def listGoogleDriveFiles_def)
  have d: "distinct (map fst (localFiles ?s0))"
    by (simp add: snapshot_def local_scan_distinct)
  from assms(2,3) v r d have "remote_unlisted p t m ?s0"
    by (simp add: remote_unlisted_def) (simp add: snapshot_def)
  then have u1: "remote_unlisted p t m ?s1"
    using assms(4)
    by (simp add: upload_pass_def upload_loop_remote_unlisted remote_unlisted_saveSettings)
  have ne: "fst kv \<noteq> p" if "kv \<in> set (remoteFilesMap ?s1)" for kv
  proof -
    from that have "fst kv \<in> fst ` set (remoteFilesMap ?s1)" by simp
    then have "map_of (remoteFilesMap ?s1) (fst kv) \<noteq> None"
      using map_of_dom[of "remoteFilesMap ?s1" "fst kv"] by blast
    with u1 show ?thesis by (auto simp: remote_unlisted_def)
  qed
  from download_fold_remote_unlisted[OF u1 ne, of "remoteFilesMap ?s1" e]
  have u2: "remote_unlisted p t m ?s2"
    by (simp add: download_pass_def download_loop_def remote_unlisted_saveSettings)
  then have l2: "map_of (localFiles ?s2) p \<noteq> None" and m2: "map_of (fileMap ?s2) p = Some m"
    and r2: "map_of (remoteFilesMap ?s2) p = None" and v2: "map_of (vault ?s2) p \<noteq> None"
    by (simp_all add: remote_unlisted_def)
  have m3: "map_of (fileMap ?s3) p = Some m"
    using local_fold_present[OF l2, of e "map fst (fileMap ?s2)"] m2
    by (simp add: saveSettings_def local_deletions_def)
  have r3: "map_of (remoteFilesMap ?s3) p = None" and v3: "map_of (vault ?s3) p \<noteq> None"
    using r2 v2 by (simp_all add: saveSettings_def local_deletions_def local_fold_frame)
  from remote_deletions_absent[OF r3, of e] m3 v3 assms(5) show ?thesis
    by (auto simp: reconcile_def after_remote_check_def split: option.splits)
qed

lemma unlisted_remote_object_gone:
  assumes "stat_throws e p" and "map_of (fileMap st) p = Some m" and "map_of (vault st) p \<noteq> None"
    and "remote_delete_fails e (remoteId m) = False"
  shows "remoteId m \<notin> fid ` set (drive (reconcile e st))"
proof -
  let ?s2 = "download_pass e (upload_pass e (snapshot e st))"
  from unlisted_run[OF assms(1,2,3)] have "map_of (fileMap ?s2) p = Some m"
    and "map_of (localFiles ?s2) p = None"
    by (simp_all add: unlisted_def)
  from local_deletions_absent[OF this, of e] assms(4)
  have "remoteId m \<notin> fid ` set (drive (local_deletions e ?s2))"
    by (auto split: if_splits)
  then show ?thesis
    by (simp add: reconcile_def remote_deletions_def remote_fold_frame saveSettings_def)
qed

text \<open>
  C4 on the code. A \<open>stat\<close> that throws leaves the path out of the local snapshot, the
  files whose \<open>stat\<close> succeeds are still collected, and a failed remote listing gives an
  empty remote snapshot. The run then takes such a path for a deleted one and acts on it
  in the same run, which the claim excludes: a vault file with an entry whose \<open>stat\<close>
  throws has no remote object left when the run ends (unless the remote delete request
  fails), and when the remote listing fails, a listed local note with an entry and no
  local change is deleted from the vault, with its entry (unless the local delete throws).
  On the synced note \<open>a.md\<close>: when its \<open>stat\<close> throws, Drive is empty after the run while
  the vault still holds the note; when the listing fails, the vault is empty after the run
  while Drive still holds the object. The comments of lines 453 and 476-478 and the notices
  of lines 457 and 488 keep both passes for files that were deleted.
\<close>

theorem C4_failed_read_is_acted_on_as_deletion:
  "(stat_throws e p \<longrightarrow> map_of (localFiles (snapshot e st)) p = None)
   \<and> (stat_throws e q = False \<and> endsWith q ''.md'' \<and> startsWith q ''.obsidian/'' = False
        \<and> map_of (vault st) q = Some l \<longrightarrow>
      map_of (localFiles (snapshot e st)) q = Some (mtime l))
   \<and> (list_fails e None \<longrightarrow> remoteFilesMap (snapshot e st) = [])
   \<and> (stat_throws e p \<and> map_of (fileMap st) p = Some m \<and> map_of (vault st) p \<noteq> None
        \<and> remote_delete_fails e (remoteId m) = False \<longrightarrow>
      remoteId m \<notin> fid ` set (drive (reconcile e st)))
   \<and> (list_fails e None \<and> map_of (fileMap st) p = Some m
        \<and> map_of (localFiles (snapshot e st)) p = Some t \<and> local_changed m t = False
        \<and> delete_throws e p = False \<longrightarrow>
      map_of (vault (reconcile e st)) p = None \<and> map_of (fileMap (reconcile e st)) p = None)
   \<and> (let s = syncNow env_stat_fails st_synced in
        map fid (drive st_synced) = [''r1''] \<and> drive s = []
        \<and> vault s = vault st_synced \<and> fileMap s = [])
   \<and> (let s = syncNow env_list_fails st_synced in
        map fst (vault st_synced) = [''a.md''] \<and> vault s = []
        \<and> drive s = drive st_synced \<and> fileMap s = [])"
proof (intro conjI impI)
  assume "stat_throws e p"
  then show "map_of (localFiles (snapshot e st)) p = None"
    by (simp add: snapshot_def local_scan_lookup stat_def)
next
  assume a: "stat_throws e q = False \<and> endsWith q ''.md'' \<and> startsWith q ''.obsidian/'' = False
        \<and> map_of (vault st) q = Some l"
  then have "q \<in> set (getMarkdownFiles st)"
    by (auto simp: getMarkdownFiles_def dest: map_of_Some_dom)
  with a show "map_of (localFiles (snapshot e st)) q = Some (mtime l)"
    by (simp add: snapshot_def local_scan_lookup stat_def)
next
  assume "list_fails e None"
  then show "remoteFilesMap (snapshot e st) = []"
    by (simp add: snapshot_def listGoogleDriveFiles_def)
next
  assume "stat_throws e p \<and> map_of (fileMap st) p = Some m \<and> map_of (vault st) p \<noteq> None
        \<and> remote_delete_fails e (remoteId m) = False"
  then show "remoteId m \<notin> fid ` set (drive (reconcile e st))"
    using unlisted_remote_object_gone by blast
next
  assume a: "list_fails e None \<and> map_of (fileMap st) p = Some m
        \<and> map_of (localFiles (snapshot e st)) p = Some t \<and> local_changed m t = False
        \<and> delete_throws e p = False"
  then show "map_of (vault (reconcile e st)) p = None"
    and "map_of (fileMap (reconcile e st)) p = None"
    using remote_unlisted_run[of e st p m t] by blast+
next
  show "let s = syncNow env_stat_fails st_synced in
        map fid (drive st_synced) = [''r1''] \<and> drive s = []
        \<and> vault s = vault st_synced \<and> fileMap s = []"
    by code_simp
next
  show "let s = syncNow env_list_fails st_synced in
        map fst (vault st_synced) = [''a.md''] \<and> vault s = []
        \<and> drive s = drive st_synced \<and> fileMap s = []"
    by code_simp
qed

theorem C4_witness:
  "(stat_throws env_stat_fails ''a.md''
      \<and> map_of (localFiles (snapshot env_stat_fails st_two_notes)) ''a.md'' = None)
   \<and> (stat_throws env_stat_fails ''b.md'' = False \<and> endsWith ''b.md'' ''.md''
      \<and> startsWith ''b.md'' ''.obsidian/'' = False
      \<and> map_of (vault st_two_notes) ''b.md'' = Some \<lparr>mtime = 11, data = ''B''\<rparr>
      \<and> map_of (localFiles (snapshot env_stat_fails st_two_notes)) ''b.md'' = Some 11)
   \<and> (list_fails env_list_fails None \<and> remoteFilesMap (snapshot env_list_fails st_synced) = [])
   \<and> (map_of (fileMap st_synced) ''a.md'' = Some entry_s
      \<and> map_of (vault st_synced) ''a.md'' \<noteq> None
      \<and> remoteId entry_s \<in> fid ` set (drive st_synced)
      \<and> remote_delete_fails env_stat_fails (remoteId entry_s) = False
      \<and> remoteId entry_s \<notin> fid ` set (drive (reconcile env_stat_fails st_synced)))
   \<and> (map_of (localFiles (snapshot env_list_fails st_synced)) ''a.md'' = Some 1000
      \<and> local_changed entry_s 1000 = False
      \<and> delete_throws env_list_fails ''a.md'' = False
      \<and> map_of (vault (reconcile env_list_fails st_synced)) ''a.md'' = None
      \<and> map_of (fileMap (reconcile env_list_fails st_synced)) ''a.md'' = None)"
proof -
  have a1: "stat_throws env_stat_fails ''a.md''"
    by code_simp
  have a2: "stat_throws env_stat_fails ''b.md'' = False \<and> endsWith ''b.md'' ''.md''
      \<and> startsWith ''b.md'' ''.obsidian/'' = False
      \<and> map_of (vault st_two_notes) ''b.md'' = Some \<lparr>mtime = 11, data = ''B''\<rparr>"
    by code_simp
  have a3: "list_fails env_list_fails None"
    by code_simp
  have a4: "map_of (fileMap st_synced) ''a.md'' = Some entry_s
      \<and> map_of (vault st_synced) ''a.md'' \<noteq> None
      \<and> remoteId entry_s \<in> fid ` set (drive st_synced)
      \<and> remote_delete_fails env_stat_fails (remoteId entry_s) = False"
    by code_simp
  have a5: "map_of (localFiles (snapshot env_list_fails st_synced)) ''a.md'' = Some 1000
      \<and> local_changed entry_s 1000 = False
      \<and> delete_throws env_list_fails ''a.md'' = False"
    by code_simp
  note t1 = C4_failed_read_is_acted_on_as_deletion
      [of env_stat_fails "''a.md''" st_two_notes "''b.md''" "\<lparr>mtime = 11, data = ''B''\<rparr>" entry_s 1000]
  note t4 = C4_failed_read_is_acted_on_as_deletion
      [of env_stat_fails "''a.md''" st_synced "''b.md''" "\<lparr>mtime = 11, data = ''B''\<rparr>" entry_s 1000]
  note t5 = C4_failed_read_is_acted_on_as_deletion
      [of env_list_fails "''a.md''" st_synced "''b.md''" "\<lparr>mtime = 11, data = ''B''\<rparr>" entry_s 1000]
  from t1 a1 have p1: "stat_throws env_stat_fails ''a.md''
      \<and> map_of (localFiles (snapshot env_stat_fails st_two_notes)) ''a.md'' = None"
    by blast
  from t1[THEN conjunct2, THEN conjunct1] a2
  have p2: "stat_throws env_stat_fails ''b.md'' = False \<and> endsWith ''b.md'' ''.md''
      \<and> startsWith ''b.md'' ''.obsidian/'' = False
      \<and> map_of (vault st_two_notes) ''b.md'' = Some \<lparr>mtime = 11, data = ''B''\<rparr>
      \<and> map_of (localFiles (snapshot env_stat_fails st_two_notes)) ''b.md'' = Some 11"
    by simp
  from t5 a3 have p3: "list_fails env_list_fails None
      \<and> remoteFilesMap (snapshot env_list_fails st_synced) = []"
    by blast
  from t4[THEN conjunct2, THEN conjunct2, THEN conjunct2, THEN conjunct1] a1 a4
  have p4: "map_of (fileMap st_synced) ''a.md'' = Some entry_s
      \<and> map_of (vault st_synced) ''a.md'' \<noteq> None
      \<and> remoteId entry_s \<in> fid ` set (drive st_synced)
      \<and> remote_delete_fails env_stat_fails (remoteId entry_s) = False
      \<and> remoteId entry_s \<notin> fid ` set (drive (reconcile env_stat_fails st_synced))"
    by blast
  from t5[THEN conjunct2, THEN conjunct2, THEN conjunct2, THEN conjunct2, THEN conjunct1] a3 a4 a5
  have p5: "map_of (localFiles (snapshot env_list_fails st_synced)) ''a.md'' = Some 1000
      \<and> local_changed entry_s 1000 = False
      \<and> delete_throws env_list_fails ''a.md'' = False
      \<and> map_of (vault (reconcile env_list_fails st_synced)) ''a.md'' = None
      \<and> map_of (fileMap (reconcile env_list_fails st_synced)) ''a.md'' = None"
    by blast
  show ?thesis
    by (rule conjI[OF p1], rule conjI[OF p2], rule conjI[OF p3], rule conjI[OF p4], rule p5)
qed

section \<open>C1: the conflict case\<close>

text \<open>
  C1 on the code. With T0 = 1000, T1 = 3000 and T2 = 2000 the run writes the backup, but
  the download pass skips the path (the remote time is below the local mtime, lines
  390-396): the path keeps the local content and the entry keeps \<open>remoteMtime\<close> 1000.
  With T1 = 2000 and T2 = 3000 the run does what C1 says.
\<close>

theorem C1_conflict_with_later_local_edit_keeps_local:
  "(let s = syncNow env_ok st_conflict_local_later in
      vault s = [(''a.md'', \<lparr>mtime = 3000, data = ''L''\<rparr>),
                 (''a_local_conflict_T.md'', \<lparr>mtime = 6000, data = ''L''\<rparr>)]
      \<and> map_option remoteMtime (map_of (fileMap s) ''a.md'') = Some (Some 1000)
      \<and> map body (drive s) = [''R'', ''L''])
   \<and> (let s = syncNow env_ok st_conflict_remote_later in
      vault s = [(''a.md'', \<lparr>mtime = 6000, data = ''R''\<rparr>),
                 (''a_local_conflict_T.md'', \<lparr>mtime = 6000, data = ''L''\<rparr>)]
      \<and> map_option remoteMtime (map_of (fileMap s) ''a.md'') = Some (Some 3000)
      \<and> map body (drive s) = [''R'', ''L''])"
  by code_simp

section \<open>C2: a second run without changes\<close>

lemma first_run_of_remote_only: "syncNow env_ok st_remote_only = st_after_first_run"
  by code_simp

text \<open>
  C2 on the code. The first run downloads the note and, because the download pass does not
  add the path to \<open>localFiles\<close>, its local-deletions pass then deletes the remote object
  and the new entry. The second run, started from the state the first one left, classifies
  the note as a new upload and uploads it.
\<close>

theorem C2_second_run_uploads_what_the_first_downloaded:
  "map fst (vault (syncNow env_ok st_remote_only)) = [''c.md'']
   \<and> drive (syncNow env_ok st_remote_only) = []
   \<and> fileMap (syncNow env_ok st_remote_only) = []
   \<and> localFiles (snapshot env_ok (syncNow env_ok st_remote_only)) = [(''c.md'', 6000)]
   \<and> upload_operation
        (upload_case_of (map_of (fileMap (syncNow env_ok st_remote_only)) ''c.md'') 6000
           (map_of (remoteFilesMap (snapshot env_ok (syncNow env_ok st_remote_only))) ''c.md''))
       = upload_new
   \<and> map name (drive (syncNow env_ok (syncNow env_ok st_remote_only))) = [''c.md'']
   \<and> map fst (fileMap (syncNow env_ok (syncNow env_ok st_remote_only))) = [''c.md'']"
  unfolding first_run_of_remote_only by code_simp

section \<open>C3: the entry after an update upload\<close>

text \<open>
  C3 on the code. Nothing fails; the run uploads the edit, and Drive holds the new content
  with time 5000. The entry is written from \<open>remoteFilesMap.get(path)\<close>, the listing taken
  before the upload (line 342), so it records time 1000 and checksum \<open>A\<close>.
\<close>

theorem C3_entry_after_update_upload_is_stale:
  "(let s = syncNow env_ok st_local_edit in
      drive s =
        [\<lparr>fid = ''r1'', name = ''a.md'', mimeType = ''text/markdown'', modifiedTime = 5000,
          md5Checksum = Some ''L'', body = ''L''\<rparr>]
      \<and> map_of (fileMap s) ''a.md''
          = Some \<lparr>remoteId = ''r1'', remoteMtime = Some 1000, remoteMd5 = Some ''A'',
                   localMtimeEpoch = Some 2000\<rparr>
      \<and> vault s = [(''a.md'', \<lparr>mtime = 2000, data = ''L''\<rparr>)])"
  by code_simp

section \<open>C7: checkpoints\<close>

lemma upload_iter_saved: "saved (upload_iter e kv s) = saved s"
proof -
  have d: "saved (do_upload e p t opn m s) = saved s" for p t opn m
  proof (cases "readBinary e s p")
    case Threw
    then show ?thesis by (simp add: do_upload_def)
  next
    case (Returned c)
    obtain r s1 where u: "uploadGoogleDriveFile e p c
        (if endsWith p ''.md'' then ''text/markdown'' else ''application/octet-stream'')
        (existingRemoteFileId opn m) s = (r, s1)"
      by (cases "uploadGoogleDriveFile e p c
        (if endsWith p ''.md'' then ''text/markdown'' else ''application/octet-stream'')
        (existingRemoteFileId opn m) s")
    from Returned u uploadGoogleDriveFile_frame[OF u] show ?thesis
      by (auto simp: do_upload_def record_upload_fileMap split: option.splits)
  qed
  show ?thesis
    using d backup_local_frame[of e "fst kv" s] by (simp add: upload_iter_def Let_def)
qed

lemma upload_loop_saved: "saved (upload_loop e visited st) = saved st"
proof (induction e visited st rule: upload_loop.induct)
  case (1 e visited st)
  show ?case
  proof (cases "pending visited st")
    case Nil
    then show ?thesis by (subst upload_loop.simps) simp
  next
    case (Cons kv rest)
    have "upload_loop e visited st = upload_loop e (fst kv # visited) (upload_iter e kv st)"
      using Cons by (subst upload_loop.simps) simp
    with "1.IH"[OF Cons] show ?thesis by (simp add: upload_iter_saved)
  qed
qed

lemma download_iter_saved: "saved (download_iter e kv s) = saved s"
proof -
  have w: "saved s1 = saved s" if "write_download e (fst kv) c opn s = Returned s1" for c opn s1
    using write_download_stored[OF that] by simp
  show ?thesis
    using w
    by (auto simp: download_iter_def do_download_def Let_def split: option.splits outcome.splits)
qed

lemma download_loop_saved: "saved (download_loop e st) = saved st"
proof -
  have "saved (foldl (\<lambda>s kv. download_iter e kv s) s xs) = saved s" for s xs
    by (induction xs arbitrary: s) (simp_all add: download_iter_saved)
  then show ?thesis by (simp add: download_loop_def)
qed

text \<open>
  C7 on the code. A run persists the file map three times: after the upload loop, after
  the download loop and after the local-deletions loop. The remote-deletions pass saves
  nothing, so what is persisted when the run returns is what the local-deletions pass
  saved. In the example the last pass deletes the local note and removes its entry, and
  each of the three checkpoints of the run, the last one included, still holds the entry.
\<close>

theorem C7_no_checkpoint_after_remote_deletions:
  "saved (reconcile e st) =
       [fileMap (local_deletions e (download_pass e (upload_pass e (snapshot e st)))),
        fileMap (download_loop e (upload_pass e (snapshot e st))),
        fileMap (upload_loop e [] (snapshot e st))] @ saved st
   \<and> saved (remote_deletions e s) = saved s
   \<and> (let s = syncNow env_ok st_remote_deleted in
        fileMap s = [] \<and> vault s = []
        \<and> saved s = [fileMap st_remote_deleted, fileMap st_remote_deleted, fileMap st_remote_deleted])"
proof -
  have g: "saved (remote_deletions e s) = saved s" for e s
    by (simp add: remote_deletions_def remote_fold_frame)
  have l: "saved (local_deletions e s) = saved s" for e s
    by (simp add: local_deletions_def local_fold_frame)
  have r: "saved (reconcile e st) =
       [fileMap (local_deletions e (download_pass e (upload_pass e (snapshot e st)))),
        fileMap (download_loop e (upload_pass e (snapshot e st))),
        fileMap (upload_loop e [] (snapshot e st))] @ saved st"
    by (simp add: reconcile_def g l saveSettings_def download_pass_def download_loop_saved
          upload_pass_def upload_loop_saved snapshot_def)
  have c: "(let s = syncNow env_ok st_remote_deleted in
        fileMap s = [] \<and> vault s = []
        \<and> saved s = [fileMap st_remote_deleted, fileMap st_remote_deleted, fileMap st_remote_deleted])"
    by code_simp
  from r g c show ?thesis by blast
qed

end
